theory Spec2Isabelle
  imports Complex_Main "HOL-Library.Word" "HOL-Library.AList" "HOL-Library.Sublist"
begin

section \<open>Errors and the JavaScript object model used by the sources\<close>

text \<open>
  The sources are TypeScript modules (strict-mode ECMAScript).  An exception thrown by the
  runtime is a value of type \<open>error\<close>, and so is the rejection of a promise of the remote
  service (\<open>FetchError\<close>); a function that can throw returns \<open>error + 'a\<close> with \<open>Inl\<close> for
  the exception.
\<close>

datatype error = TypeError | RangeError | FetchError

text \<open>
  Both \<open>buildTree\<close> and \<open>loadImagesForFolder\<close> use plain object literals \<open>{}\<close> as
  dictionaries and test \<open>obj[key]\<close> for truthiness.  A plain object inherits from
  \<open>Object.prototype\<close>, so \<open>obj[key]\<close> is truthy for every inherited property name even
  when the object has no own property of that name.  \<open>foreign\<close> lists the kinds of inherited
  value such a read can return: \<open>Object.prototype\<close> itself (through the \<open>__proto__\<close>
  accessor), one of the built-in functions, or the primitive \<open>true\<close> once
  \<open>Object.prototype.isSelectable\<close> has been assigned by an earlier walk of \<open>buildTree\<close>.
  The flag of type \<open>bool\<close> threaded through the model records that assignment.
\<close>

datatype foreign = ObjectPrototype | BuiltinFunction | PrimitiveTrue

definition objectPrototypeFunctions :: "string list" where
  "objectPrototypeFunctions =
     [''constructor'', ''hasOwnProperty'', ''isPrototypeOf'', ''propertyIsEnumerable'',
      ''toLocaleString'', ''toString'', ''valueOf'', ''__defineGetter__'',
      ''__defineSetter__'', ''__lookupGetter__'', ''__lookupSetter__'']"

definition inherited :: "bool \<Rightarrow> string \<Rightarrow> foreign option" where
  "inherited polluted key =
     (if key = ''__proto__'' then Some ObjectPrototype
      else if key \<in> set objectPrototypeFunctions then Some BuiltinFunction
      else if polluted \<and> key = ''isSelectable'' then Some PrimitiveTrue
      else None)"

section \<open>Hierarchical path tree builder\<close>

text \<open>
  \<open>TreeNode\<close> of \<open>types.ts\<close>.  The \<open>children\<close> object is the association list of its own
  properties; only look-ups by key are observed below, not the order of the keys.  A
  string is a list of code units; the builder only compares code units for equality.
\<close>

datatype TreeNode =
  TreeNode (name: string) (path: string) (isSelectable: bool)
           (children: "(string \<times> TreeNode) list")

definition set_isSelectable :: "TreeNode \<Rightarrow> TreeNode" where
  "set_isSelectable n = TreeNode (name n) (path n) True (children n)"

definition set_child :: "string \<Rightarrow> TreeNode \<Rightarrow> TreeNode \<Rightarrow> TreeNode" where
  "set_child key c n =
     TreeNode (name n) (path n) (isSelectable n) (AList.update key c (children n))"

text \<open>
  \<open>s.split(sep)\<close> for a one-character separator: always at least one segment, and empty
  segments are kept.
\<close>

fun split_on :: "char \<Rightarrow> string \<Rightarrow> string list" where
  "split_on sep [] = [[]]"
| "split_on sep (c # cs) =
     (if c = sep then [] # split_on sep cs
      else (case split_on sep cs of [] \<Rightarrow> [[c]] | p # ps \<Rightarrow> (c # p) # ps))"

definition split_slash :: "string \<Rightarrow> string list" where
  "split_slash p = split_on CHR ''/'' p"

text \<open>\<open>currentPath = currentPath ? `${currentPath}/${part}` : part\<close>.\<close>

definition joinPath :: "string \<Rightarrow> string \<Rightarrow> string" where
  "joinPath currentPath part = (if currentPath = [] then part else currentPath @ ''/'' @ part)"

text \<open>
  The inner \<open>parts.forEach\<close>.  \<open>walk paths polluted currentPath parts currentNode\<close> returns
  \<open>currentNode\<close> with the remaining parts inserted below it, and the flag.  When the read
  \<open>currentNode.children[part]\<close> finds no own property but an inherited value, no node is
  created and \<open>currentNode\<close> becomes that value: assigning \<open>isSelectable\<close> to it sets the
  property on \<open>Object.prototype\<close>, is unobservable on a built-in function, and throws on the
  primitive \<open>true\<close> (strict mode); the next part then reads \<open>children\<close> of \<open>undefined\<close>
  and throws.
\<close>

fun walk :: "string list \<Rightarrow> bool \<Rightarrow> string \<Rightarrow> string list \<Rightarrow> TreeNode
               \<Rightarrow> error + TreeNode \<times> bool" where
  "walk paths polluted currentPath [] currentNode = Inr (currentNode, polluted)"
| "walk paths polluted currentPath (part # rest) currentNode =
     (let currentPath' = joinPath currentPath part;
          mark = (\<lambda>c. if currentPath' \<in> set paths then set_isSelectable c else c);
          descend = (\<lambda>c. case walk paths polluted currentPath' rest (mark c) of
                             Inl e \<Rightarrow> Inl e
                           | Inr (c', polluted') \<Rightarrow> Inr (set_child part c' currentNode, polluted'))
      in case map_of (children currentNode) part of
           Some child \<Rightarrow> descend child
         | None \<Rightarrow>
             (case inherited polluted part of
                None \<Rightarrow> descend (TreeNode part currentPath' False [])
              | Some v \<Rightarrow>
                  if currentPath' \<in> set paths \<and> v = PrimitiveTrue then Inl TypeError
                  else if rest \<noteq> [] then Inl TypeError
                  else Inr (currentNode,
                            polluted \<or> (currentPath' \<in> set paths \<and> v = ObjectPrototype))))"

text \<open>The outer \<open>paths.forEach\<close>: an empty path is skipped.\<close>

fun forEach_path :: "string list \<Rightarrow> string list \<Rightarrow> TreeNode \<times> bool
                       \<Rightarrow> error + TreeNode \<times> bool" where
  "forEach_path paths [] st = Inr st"
| "forEach_path paths (p # ps) st =
     (if p = [] then forEach_path paths ps st
      else (case walk paths (snd st) [] (split_slash p) (fst st) of
              Inl e \<Rightarrow> Inl e
            | Inr st' \<Rightarrow> forEach_path paths ps st'))"

definition buildTree :: "bool \<Rightarrow> string list \<Rightarrow> error + TreeNode \<times> bool" where
  "buildTree polluted paths =
     forEach_path paths paths (TreeNode ''root'' [] False [], polluted)"

text \<open>Observation: the node reached from a node by a chain of child keys.\<close>

fun node_at :: "TreeNode \<Rightarrow> string list \<Rightarrow> TreeNode option" where
  "node_at t [] = Some t"
| "node_at t (k # ks) =
     (case map_of (children t) k of None \<Rightarrow> None | Some c \<Rightarrow> node_at c ks)"

subsection \<open>Auxiliary notions for the proofs about the tree builder\<close>

text \<open>
  \<open>safe_paths\<close>: no segment of any path is a property name inherited from
  \<open>Object.prototype\<close> (as it is at program start).  On such lists \<open>walk\<close> never leaves
  the tree; \<open>insert_parts\<close> is \<open>walk\<close> with the inherited-property branch removed, and
  \<open>walk_safe\<close> below proves that the two agree there.
\<close>

definition safe_parts :: "string list \<Rightarrow> bool" where
  "safe_parts parts = (\<forall>k \<in> set parts. inherited False k = None)"

definition safe_paths :: "string list \<Rightarrow> bool" where
  "safe_paths paths = (\<forall>p \<in> set paths. safe_parts (split_slash p))"

definition enter :: "string list \<Rightarrow> string \<Rightarrow> string \<Rightarrow> TreeNode \<Rightarrow> TreeNode" where
  "enter paths currentPath part currentNode =
     (let currentPath' = joinPath currentPath part;
          c = (case map_of (children currentNode) part of
                 Some child \<Rightarrow> child
               | None \<Rightarrow> TreeNode part currentPath' False [])
      in if currentPath' \<in> set paths then set_isSelectable c else c)"

fun insert_parts :: "string list \<Rightarrow> string \<Rightarrow> string list \<Rightarrow> TreeNode \<Rightarrow> TreeNode" where
  "insert_parts paths currentPath [] currentNode = currentNode"
| "insert_parts paths currentPath (part # rest) currentNode =
     set_child part
       (insert_parts paths (joinPath currentPath part) rest
          (enter paths currentPath part currentNode))
       currentNode"

text \<open>
  \<open>well_marked paths cur t\<close>: every node strictly below \<open>t\<close>, reached by the key chain
  \<open>ks\<close>, is named after the last key, carries the path that the walk computes along
  \<open>ks\<close> starting from \<open>cur\<close>, and is selectable exactly when that path is in \<open>paths\<close>.
\<close>

definition well_marked :: "string list \<Rightarrow> string \<Rightarrow> TreeNode \<Rightarrow> bool" where
  "well_marked paths cur t =
     (\<forall>ks n. ks \<noteq> [] \<longrightarrow> node_at t ks = Some n \<longrightarrow>
        name n = last ks \<and> path n = foldl joinPath cur ks \<and>
        (isSelectable n \<longleftrightarrow> foldl joinPath cur ks \<in> set paths))"

definition has_node :: "TreeNode \<Rightarrow> string list \<Rightarrow> bool" where
  "has_node t ks = (node_at t ks \<noteq> None)"

definition node_info :: "TreeNode \<Rightarrow> string \<times> string \<times> bool" where
  "node_info n = (name n, path n, isSelectable n)"

fun insert_paths :: "string list \<Rightarrow> string list \<Rightarrow> TreeNode \<Rightarrow> TreeNode" where
  "insert_paths paths [] t = t"
| "insert_paths paths (p # ps) t =
     insert_paths paths ps
       (if p = [] then t else insert_parts paths [] (split_slash p) t)"

section \<open>On-demand folder cache\<close>

text \<open>
  The image records that \<open>loadImagesForFolder\<close> builds (the optional fields of \<open>Image\<close>
  are not set there).  Strings are lists of code units below 256.
\<close>

record Image =
  image_id :: string
  image_name :: string
  image_fullPath :: string
  image_format :: string

text \<open>\<open>String.prototype.toLowerCase\<close> on code units below 256.\<close>

definition lower_char :: "char \<Rightarrow> char" where
  "lower_char c =
     (let n = (of_char c :: nat)
      in if (65 \<le> n \<and> n \<le> 90) \<or> (192 \<le> n \<and> n \<le> 222 \<and> n \<noteq> 215)
         then char_of (n + 32) else c)"

definition toLowerCase :: "string \<Rightarrow> string" where
  "toLowerCase s = map lower_char s"

text \<open>
  \<open>{ id: fullPath, name: fullPath.split('/').pop() || fullPath, fullPath,
      format: fullPath.split('.').pop()?.toLowerCase() || 'unknown' }\<close>
\<close>

definition toImage :: "string \<Rightarrow> Image" where
  "toImage p =
     \<lparr> image_id = p,
       image_name = (let n = last (split_on CHR ''/'' p) in if n = [] then p else n),
       image_fullPath = p,
       image_format = (let e = toLowerCase (last (split_on CHR ''.'' p))
                 in if e = [] then ''unknown'' else e) \<rparr>"

text \<open>
  The part of the application state that \<open>loadImagesForFolder\<close> and
  \<open>handleRefreshFolders\<close> touch: the cache object \<open>imagesByFolder\<close> (own properties in
  insertion order), the busy flag, the headers of the entries written with \<open>addLog\<close>, and
  the folder paths for which \<open>api.getImages\<close> was called, oldest first.  The remote service
  \<open>api.getImages\<close> is not part of these sources and is a parameter: \<open>Inl\<close> is a rejected
  promise.  A call is modelled as running to completion on the current state, so a
  second call starts from the state the first one left.
\<close>

datatype LogLevel = INFO | WARN | ERROR | API

record AppState =
  imagesByFolder :: "(string \<times> Image list) list"
  isAppBusy :: bool
  logged :: "(LogLevel \<times> string) list"
  getImagesCalls :: "string list"

text \<open>
  \<open>imagesByFolder[folderPath]\<close> is truthy when the cache has an own entry (an array, even an
  empty one, is truthy) and when \<open>folderPath\<close> is a property name inherited from
  \<open>Object.prototype\<close>.
\<close>

definition cached :: "bool \<Rightarrow> (string \<times> Image list) list \<Rightarrow> string \<Rightarrow> bool" where
  "cached polluted cache folderPath =
     (map_of cache folderPath \<noteq> None \<or> inherited polluted folderPath \<noteq> None)"

definition loadImagesForFolder ::
  "bool \<Rightarrow> (string \<Rightarrow> error + string list) \<Rightarrow> string \<Rightarrow> AppState \<Rightarrow> AppState" where
  "loadImagesForFolder polluted getImages folderPath s =
     (if cached polluted (imagesByFolder s) folderPath then s
      else
        (let s1 = s\<lparr> isAppBusy := True,
                     logged := logged s @ [(INFO, ''Fetching images for sidebar view: '' @ folderPath)],
                     getImagesCalls := getImagesCalls s @ [folderPath] \<rparr>
         in case getImages folderPath of
              Inr imagePaths \<Rightarrow>
                s1\<lparr> imagesByFolder :=
                       AList.update folderPath (map toImage imagePaths) (imagesByFolder s1),
                     isAppBusy := False \<rparr>
            | Inl err \<Rightarrow>
                s1\<lparr> logged := logged s1 @ [(ERROR, ''Failed to fetch images for '' @ folderPath)],
                     imagesByFolder := AList.update folderPath [] (imagesByFolder s1),
                     isAppBusy := False \<rparr>))"

text \<open>\<open>handleRefreshFolders\<close>, as far as the cache is concerned: \<open>setImagesByFolder({})\<close>.\<close>

definition handleRefreshFolders :: "AppState \<Rightarrow> AppState" where
  "handleRefreshFolders s = s\<lparr> imagesByFolder := [] \<rparr>"

section \<open>Metadata extractor\<close>

subsection \<open>Values, offsets and the byte-stream reader\<close>

text \<open>
  A decoded tag value is a number, a string or an array of numbers.  Numbers are exact
  rationals: the rounding of IEEE doubles is not modelled, so a quotient, a sum or a
  rounded value of the model can differ from the double that the code computes (on a tie
  of the rounding to four decimals, in the last of them).  The theorems below state no
  such computed value; the worked examples use numbers on which the arithmetic of doubles
  is exact.
\<close>

datatype jsvalue = Num rat | Str string | Arr "rat list"

type_synonym fields = "(string \<times> jsvalue) list"

type_synonym byte = "8 word"

text \<open>
  The tag object is typed \<open>any\<close>, so the directory offsets that \<open>getExifData\<close> computes
  from a pointer field are numbers only when that field decoded as a number.  When it
  decoded as a string or an array, \<open>+\<close> concatenates and every later \<open>+\<close> appends decimal
  digits; a \<open>DataView\<close> read converts such a string with \<open>ToIndex\<close>.  The two conversions
  of the ECMAScript runtime that are needed only then are parameters: the text of a
  number, and the index of a string (\<open>None\<close> when \<open>ToIndex\<close> throws a \<open>RangeError\<close>).
\<close>

datatype offset = NumOff rat | StrOff string

record runtime =
  numberToString :: "rat \<Rightarrow> string"
  stringToIndex :: "string \<Rightarrow> nat option"

definition digit :: "nat \<Rightarrow> char" where
  "digit d = char_of (48 + d)"

fun decimal :: "nat \<Rightarrow> string" where
  "decimal n = (if n < 10 then [digit n] else decimal (n div 10) @ [digit (n mod 10)])"

declare decimal.simps [simp del]

definition off_add :: "offset \<Rightarrow> nat \<Rightarrow> offset" where
  "off_add off k = (case off of NumOff r \<Rightarrow> NumOff (r + of_nat k)
                              | StrOff s \<Rightarrow> StrOff (s @ decimal k))"

definition numOff :: "nat \<Rightarrow> offset" where
  "numOff n = NumOff (of_nat n)"

definition bindE :: "error + 'a \<Rightarrow> ('a \<Rightarrow> error + 'b) \<Rightarrow> error + 'b" where
  "bindE m f = (case m of Inl e \<Rightarrow> Inl e | Inr x \<Rightarrow> f x)"

fun mapE :: "('a \<Rightarrow> error + 'b) \<Rightarrow> 'a list \<Rightarrow> error + 'b list" where
  "mapE f [] = Inr []"
| "mapE f (x # xs) = bindE (f x) (\<lambda>y. bindE (mapE f xs) (\<lambda>ys. Inr (y # ys)))"

text \<open>
  \<open>ToIndex\<close> truncates a number (all offsets here are non-negative); an index beyond
  \<open>2^53 - 1\<close> is out of range for every buffer, so the bounds check of the read covers it.
\<close>

definition toIndex :: "runtime \<Rightarrow> offset \<Rightarrow> error + nat" where
  "toIndex rt off =
     (case off of
        NumOff r \<Rightarrow> Inr (nat \<lfloor>r\<rfloor>)
      | StrOff s \<Rightarrow> (case stringToIndex rt s of None \<Rightarrow> Inl RangeError | Some i \<Rightarrow> Inr i))"

text \<open>\<open>DataView\<close> reads: a read that does not fit in the buffer throws \<open>RangeError\<close>.\<close>

definition getUint8 :: "runtime \<Rightarrow> byte list \<Rightarrow> offset \<Rightarrow> error + nat" where
  "getUint8 rt file off =
     bindE (toIndex rt off) (\<lambda>i.
       if i + 1 \<le> length file then Inr (unat (file ! i)) else Inl RangeError)"

definition getUint16 :: "runtime \<Rightarrow> byte list \<Rightarrow> offset \<Rightarrow> bool \<Rightarrow> error + nat" where
  "getUint16 rt file off littleEndian =
     bindE (toIndex rt off) (\<lambda>i.
       if i + 2 \<le> length file then
         (let b0 = unat (file ! i); b1 = unat (file ! (i + 1))
          in Inr (if littleEndian then b0 + 256 * b1 else 256 * b0 + b1))
       else Inl RangeError)"

definition getUint32 :: "runtime \<Rightarrow> byte list \<Rightarrow> offset \<Rightarrow> bool \<Rightarrow> error + nat" where
  "getUint32 rt file off littleEndian =
     bindE (toIndex rt off) (\<lambda>i.
       if i + 4 \<le> length file then
         (let b0 = unat (file ! i); b1 = unat (file ! (i + 1));
              b2 = unat (file ! (i + 2)); b3 = unat (file ! (i + 3))
          in Inr (if littleEndian then b0 + 256 * b1 + 65536 * b2 + 16777216 * b3
                  else 16777216 * b0 + 65536 * b1 + 256 * b2 + b3))
       else Inl RangeError)"

definition readRational :: "runtime \<Rightarrow> byte list \<Rightarrow> offset \<Rightarrow> bool \<Rightarrow> error + rat" where
  "readRational rt file off bigEnd =
     bindE (getUint32 rt file off (\<not> bigEnd)) (\<lambda>numerator.
     bindE (getUint32 rt file (off_add off 4) (\<not> bigEnd)) (\<lambda>denominator.
       if denominator = 0 then Inr 0
       else Inr (of_nat numerator / of_nat denominator)))"

subsection \<open>Tag tables and the tag directory decoder\<close>

definition EXIF_TAGS :: "(nat \<times> string) list" where
  "EXIF_TAGS =
     [(0x0100, ''ImageWidth''), (0x0101, ''ImageHeight''), (0x0102, ''BitsPerSample''),
      (0x0103, ''Compression''), (0x0106, ''PhotometricInterpretation''),
      (0x010E, ''ImageDescription''), (0x010F, ''Make''), (0x0110, ''Model''),
      (0x0112, ''Orientation''), (0x0115, ''SamplesPerPixel''), (0x011A, ''XResolution''),
      (0x011B, ''YResolution''), (0x011C, ''PlanarConfiguration''),
      (0x0128, ''ResolutionUnit''), (0x0132, ''DateTime''), (0x013B, ''Artist''),
      (0x8298, ''Copyright''), (0x8769, ''ExifIFDPointer''), (0x8825, ''GPSInfoIFDPointer''),
      (0x9000, ''ExifVersion''), (0x9003, ''DateTimeOriginal''),
      (0x9004, ''DateTimeDigitized''), (0x9201, ''ShutterSpeedValue''),
      (0x9202, ''ApertureValue''), (0x9204, ''ExposureTime''), (0x9205, ''FNumber''),
      (0x9209, ''Flash''), (0x920A, ''FocalLength''), (0x927C, ''MakerNote''),
      (0x9286, ''UserComment''), (0x8827, ''ISOSpeedRatings''), (0xA001, ''ColorSpace''),
      (0xA002, ''PixelXDimension''), (0xA003, ''PixelYDimension''),
      (0xA402, ''ExposureMode''), (0xA403, ''WhiteBalance''), (0xA406, ''SceneCaptureType'')]"

definition GPS_TAGS :: "(nat \<times> string) list" where
  "GPS_TAGS =
     [(0x0001, ''GPSLatitudeRef''), (0x0002, ''GPSLatitude''),
      (0x0003, ''GPSLongitudeRef''), (0x0004, ''GPSLongitude'')]"

definition typeSizes :: "nat list" where
  "typeSizes = [0, 1, 1, 2, 4, 8, 1, 1, 2, 4, 8, 4, 8]"

text \<open>
  \<open>String.prototype.trim\<close> removes white space and line terminators at both ends; among
  the code units below 256 these are 9 to 13, 32 and 160.
\<close>

definition isWhiteSpace :: "char \<Rightarrow> bool" where
  "isWhiteSpace c = ((of_char c :: nat) \<in> {9, 10, 11, 12, 13, 32, 160})"

definition trim :: "string \<Rightarrow> string" where
  "trim s = rev (dropWhile isWhiteSpace (rev (dropWhile isWhiteSpace s)))"

text \<open>
  The value of one directory entry (the \<open>if\<close> chain on \<open>format\<close>); \<open>None\<close> is
  \<open>value === undefined\<close>.  \<open>Math.min(components - 1, 100)\<close> is \<open>-1\<close> for no components,
  where the loop does not run either.
\<close>

definition decodeValue ::
  "runtime \<Rightarrow> byte list \<Rightarrow> bool \<Rightarrow> nat \<Rightarrow> nat \<Rightarrow> nat \<Rightarrow> nat \<Rightarrow> offset \<Rightarrow> offset
     \<Rightarrow> error + jsvalue option" where
  "decodeValue rt file bigEnd format components totalSize valuePointer dataOffset valueAddress =
     (if format = 2 then
        bindE (mapE (\<lambda>n. getUint8 rt file (off_add valueAddress n))
                 [0 ..< min (components - 1) 100])
          (\<lambda>codes. Inr (Some (Str (trim (map char_of codes)))))
      else if format = 5 then
        (if components > 1 then
           bindE (mapE (\<lambda>j. readRational rt file (off_add valueAddress (j * 8)) bigEnd)
                    [0 ..< components])
             (\<lambda>rs. Inr (Some (Arr rs)))
         else
           bindE (readRational rt file valueAddress bigEnd) (\<lambda>r. Inr (Some (Num r))))
      else if components = 1 \<and> totalSize \<le> 4 then
        (if format = 4 then
           bindE (getUint32 rt file dataOffset (\<not> bigEnd)) (\<lambda>v. Inr (Some (Num (of_nat v))))
         else if format = 3 then
           bindE (getUint16 rt file dataOffset (\<not> bigEnd)) (\<lambda>v. Inr (Some (Num (of_nat v))))
         else Inr None)
      else Inr (Some (Num (of_nat valuePointer))))"

text \<open>One iteration of the loop over the directory entries; \<open>continue\<close> returns \<open>result\<close>.\<close>

definition readEntry ::
  "runtime \<Rightarrow> byte list \<Rightarrow> nat \<Rightarrow> offset \<Rightarrow> (nat \<times> string) list \<Rightarrow> bool \<Rightarrow> nat \<Rightarrow> fields
     \<Rightarrow> error + fields" where
  "readEntry rt file tiffStart dirStart tags bigEnd i result =
     (let entryOffset = off_add (off_add dirStart (i * 12)) 2
      in bindE (getUint16 rt file entryOffset (\<not> bigEnd)) (\<lambda>tagId.
         case map_of tags tagId of
           None \<Rightarrow> Inr result
         | Some tagName \<Rightarrow>
             bindE (getUint16 rt file (off_add entryOffset 2) (\<not> bigEnd)) (\<lambda>format.
             bindE (getUint32 rt file (off_add entryOffset 4) (\<not> bigEnd)) (\<lambda>components.
               let dataOffset = off_add entryOffset 8;
                   typeSize = (if format < length typeSizes then typeSizes ! format else 0)
               in if typeSize = 0 then Inr result
                  else
                    (let totalSize = components * typeSize
                     in bindE (getUint32 rt file dataOffset (\<not> bigEnd)) (\<lambda>valuePointer.
                          let valueAddress =
                                (if totalSize > 4 then numOff (tiffStart + valuePointer)
                                 else dataOffset)
                          in bindE (decodeValue rt file bigEnd format components totalSize
                                      valuePointer dataOffset valueAddress)
                               (\<lambda>value. case value of
                                           None \<Rightarrow> Inr result
                                         | Some v \<Rightarrow> Inr (AList.update tagName v result))))))))"

fun readEntries ::
  "runtime \<Rightarrow> byte list \<Rightarrow> nat \<Rightarrow> offset \<Rightarrow> (nat \<times> string) list \<Rightarrow> bool \<Rightarrow> nat list \<Rightarrow> fields
     \<Rightarrow> error + fields" where
  "readEntries rt file tiffStart dirStart tags bigEnd [] result = Inr result"
| "readEntries rt file tiffStart dirStart tags bigEnd (i # is) result =
     bindE (readEntry rt file tiffStart dirStart tags bigEnd i result)
       (readEntries rt file tiffStart dirStart tags bigEnd is)"

definition readTags ::
  "runtime \<Rightarrow> byte list \<Rightarrow> nat \<Rightarrow> offset \<Rightarrow> (nat \<times> string) list \<Rightarrow> bool \<Rightarrow> error + fields" where
  "readTags rt file tiffStart dirStart tags bigEnd =
     bindE (getUint16 rt file dirStart (\<not> bigEnd)) (\<lambda>entries.
       readEntries rt file tiffStart dirStart tags bigEnd [0 ..< entries] [])"

subsection \<open>The extractor\<close>

text \<open>Truthiness of \<open>tags.X\<close>: a missing property is \<open>undefined\<close>; an array is always truthy.\<close>

definition truthy :: "jsvalue option \<Rightarrow> bool" where
  "truthy v = (case v of None \<Rightarrow> False
                       | Some (Num r) \<Rightarrow> r \<noteq> 0
                       | Some (Str s) \<Rightarrow> s \<noteq> []
                       | Some (Arr rs) \<Rightarrow> True)"

text \<open>
  \<open>tiffHeaderOffset + tags.X\<close>: numeric addition for a number, concatenation for a string
  and for an array (whose text joins the texts of its elements with commas).
\<close>

fun joinComma :: "string list \<Rightarrow> string" where
  "joinComma [] = []"
| "joinComma [x] = x"
| "joinComma (x # y # zs) = x @ '','' @ joinComma (y # zs)"

definition addPointer :: "runtime \<Rightarrow> nat \<Rightarrow> jsvalue \<Rightarrow> offset" where
  "addPointer rt tiffHeaderOffset v =
     (case v of
        Num r \<Rightarrow> NumOff (of_nat tiffHeaderOffset + r)
      | Str s \<Rightarrow> StrOff (decimal tiffHeaderOffset @ s)
      | Arr rs \<Rightarrow> StrOff (decimal tiffHeaderOffset @ joinComma (map (numberToString rt) rs)))"

text \<open>\<open>for (const tag in other) tags[tag] = other[tag]\<close>.\<close>

definition mergeTags :: "fields \<Rightarrow> fields \<Rightarrow> fields" where
  "mergeTags tags other = foldl (\<lambda>acc (k, v). AList.update k v acc) tags other"

text \<open>
  A pointer field that is truthy makes the extractor decode a further directory with the
  given table and merge it.
\<close>

definition followPointer ::
  "runtime \<Rightarrow> byte list \<Rightarrow> nat \<Rightarrow> bool \<Rightarrow> string \<Rightarrow> (nat \<times> string) list \<Rightarrow> fields
     \<Rightarrow> error + fields" where
  "followPointer rt file tiffHeaderOffset bigEnd pointerName table tags =
     (case map_of tags pointerName of
        None \<Rightarrow> Inr tags
      | Some pointer \<Rightarrow>
          if truthy (Some pointer) then
            bindE (readTags rt file tiffHeaderOffset (addPointer rt tiffHeaderOffset pointer)
                     table bigEnd)
              (\<lambda>other. Inr (mergeTags tags other))
          else Inr tags)"

text \<open>
  The three directories of the APP1 segment at \<open>offset\<close>, merged; \<open>None\<close> when the
  signature \<open>Exif\<close> is missing.
\<close>

definition collectTags :: "runtime \<Rightarrow> byte list \<Rightarrow> nat \<Rightarrow> error + fields option" where
  "collectTags rt file offset =
     (let tiffHeaderOffset = offset + 10
      in bindE (getUint32 rt file (numOff (offset + 4)) False) (\<lambda>signature.
         if signature \<noteq> 0x45786966 then Inr None
         else
           bindE (getUint16 rt file (numOff tiffHeaderOffset) False) (\<lambda>byteOrder.
             let bigEnd = (byteOrder = 0x4D4D)
             in bindE (getUint32 rt file (numOff (tiffHeaderOffset + 4)) (\<not> bigEnd)) (\<lambda>ifdOffset.
                bindE (readTags rt file tiffHeaderOffset (numOff (tiffHeaderOffset + ifdOffset))
                         EXIF_TAGS bigEnd) (\<lambda>tags.
                bindE (followPointer rt file tiffHeaderOffset bigEnd ''ExifIFDPointer''
                         EXIF_TAGS tags) (\<lambda>tags.
                bindE (followPointer rt file tiffHeaderOffset bigEnd ''GPSInfoIFDPointer''
                         GPS_TAGS tags) (\<lambda>tags. Inr (Some tags))))))))"

text \<open>
  The \<open>try\<close> block of the coordinate conversion: \<open>None\<close> when it throws.  The elements of a
  decoded array are always numbers, so the second check of the source cannot fail;
  \<open>.trim()\<close> throws a \<open>TypeError\<close> on a reference that is not a string.
\<close>

definition decimalDegrees :: "rat list \<Rightarrow> rat" where
  "decimalDegrees dms = dms ! 0 + dms ! 1 / 60 + dms ! 2 / 3600"

definition tryConvert :: "fields \<Rightarrow> fields option" where
  "tryConvert tags =
     (case (map_of tags ''GPSLatitude'', map_of tags ''GPSLongitude'') of
        (Some (Arr lat), Some (Arr lon)) \<Rightarrow>
          if length lat \<noteq> 3 \<or> length lon \<noteq> 3 then None
          else
            (case (map_of tags ''GPSLatitudeRef'', map_of tags ''GPSLongitudeRef'') of
               (Some (Str latRef), Some (Str lonRef)) \<Rightarrow>
                 Some (AList.update ''GPSLongitude''
                         (Num ((if trim lonRef = ''E'' then 1 else -1) * decimalDegrees lon))
                      (AList.update ''GPSLatitude''
                         (Num ((if trim latRef = ''N'' then 1 else -1) * decimalDegrees lat))
                       tags))
             | _ \<Rightarrow> None)
      | _ \<Rightarrow> None)"

text \<open>The condition that guards the conversion: all four location fields are truthy.\<close>

definition gpsGuard :: "fields \<Rightarrow> bool" where
  "gpsGuard tags =
     (truthy (map_of tags ''GPSLatitude'') \<and> truthy (map_of tags ''GPSLongitude'') \<and>
      truthy (map_of tags ''GPSLatitudeRef'') \<and> truthy (map_of tags ''GPSLongitudeRef''))"

definition convertGps :: "fields \<Rightarrow> fields" where
  "convertGps tags =
     (if gpsGuard tags
      then
        AList.delete ''GPSLongitudeRef'' (AList.delete ''GPSLatitudeRef''
          (case tryConvert tags of
             Some tags' \<Rightarrow> tags'
           | None \<Rightarrow> AList.delete ''GPSLongitude'' (AList.delete ''GPSLatitude'' tags)))
      else tags)"

text \<open>
  \<open>Math.round(x * 10000) / 10000\<close>, on exact rationals; \<open>Math.round\<close> rounds halves up.
  The code multiplies and divides doubles, so its result can differ in the fourth decimal.
\<close>

definition round4 :: "rat \<Rightarrow> rat" where
  "round4 x = of_int \<lfloor>x * 10000 + 1 / 2\<rfloor> / 10000"

definition roundValue :: "jsvalue \<Rightarrow> jsvalue" where
  "roundValue v = (case v of Num r \<Rightarrow> Num (round4 r) | _ \<Rightarrow> v)"

text \<open>
  Everything after the directories are merged: coordinate conversion, removal of the two
  pointer fields, rounding, and \<open>null\<close> for an empty object.
\<close>

definition finishTags :: "fields \<Rightarrow> fields option" where
  "finishTags tags =
     (let tags1 = convertGps tags;
          tags2 = AList.delete ''GPSInfoIFDPointer'' (AList.delete ''ExifIFDPointer'' tags1);
          tags3 = map (\<lambda>(k, v). (k, roundValue v)) tags2
      in if tags3 = [] then None else Some tags3)"

text \<open>
  One iteration of the segment scan at \<open>offset\<close> (with \<open>offset < byteLength\<close>): it returns
  from \<open>getExifData\<close> or continues at the next segment.
\<close>

datatype step = Return "fields option" | Next nat

definition segment :: "runtime \<Rightarrow> byte list \<Rightarrow> nat \<Rightarrow> error + step" where
  "segment rt file offset =
     (if offset + 4 > length file then Inr (Return None)
      else
        bindE (getUint8 rt file (numOff offset)) (\<lambda>lead.
          if lead \<noteq> 0xFF then Inr (Return None)
          else
            bindE (getUint8 rt file (numOff (offset + 1))) (\<lambda>marker.
              if marker = 0xE1 then
                bindE (collectTags rt file offset) (\<lambda>tags.
                  Inr (Return (case tags of None \<Rightarrow> None | Some t \<Rightarrow> finishTags t)))
              else
                bindE (getUint16 rt file (numOff (offset + 2)) False) (\<lambda>len.
                  Inr (Next (offset + 2 + len))))))"

text \<open>
  The \<open>while\<close> loop.  It is defined without a termination argument: \<open>None\<close> would mean
  that the loop runs forever.
\<close>

partial_function (option) scan ::
  "runtime \<Rightarrow> byte list \<Rightarrow> nat \<Rightarrow> (error + fields option) option" where
  "scan rt file offset =
     (if offset < length file then
        (case segment rt file offset of
           Inl e \<Rightarrow> Some (Inl e)
         | Inr (Return r) \<Rightarrow> Some (Inr r)
         | Inr (Next offset') \<Rightarrow> scan rt file offset')
      else Some (Inr None))"

definition getExifData :: "runtime \<Rightarrow> byte list \<Rightarrow> (error + fields option) option" where
  "getExifData rt arrayBuffer =
     (case getUint8 rt arrayBuffer (numOff 0) of
        Inl e \<Rightarrow> Some (Inl e)
      | Inr b0 \<Rightarrow>
          if b0 \<noteq> 0xFF then Some (Inr None)
          else
            (case getUint8 rt arrayBuffer (numOff 1) of
               Inl e \<Rightarrow> Some (Inl e)
             | Inr b1 \<Rightarrow>
                 if b1 \<noteq> 0xD8 then Some (Inr None)
                 else scan rt arrayBuffer 2))"

subsection \<open>Auxiliary notions for the proofs about the extractor\<close>




text \<open>The \<open>entryOffset\<close> of entry \<open>i\<close> of a directory, as the loop computes it.\<close>

definition entryOffsetAt :: "offset \<Rightarrow> nat \<Rightarrow> offset" where
  "entryOffsetAt dirStart i = off_add (off_add dirStart (i * 12)) 2"

text \<open>
  \<open>nonnegFields\<close>: every number among the decoded values is non-negative, as every
  number that the directory decoder reads is an unsigned integer or a quotient of two.
\<close>

definition nonnegValue :: "jsvalue \<Rightarrow> bool" where
  "nonnegValue v = (case v of Num r \<Rightarrow> 0 \<le> r | Str s \<Rightarrow> True | Arr rs \<Rightarrow> (\<forall>r \<in> set rs. 0 \<le> r))"

definition nonnegFields :: "fields \<Rightarrow> bool" where
  "nonnegFields tags = (\<forall>kv \<in> set tags. nonnegValue (snd kv))"

text \<open>\<open>range_only r\<close>: if \<open>r\<close> is an exception at all, it is a \<open>RangeError\<close>.\<close>

definition range_only :: "error + 'a \<Rightarrow> bool" where
  "range_only r = (\<forall>e. r = Inl e \<longrightarrow> e = RangeError)"

text \<open>
  A runtime for the worked examples.  Their pointer fields are numbers, so the examples
  never consult it.
\<close>

definition exampleRuntime :: runtime where
  "exampleRuntime = \<lparr> numberToString = (\<lambda>r. []), stringToIndex = (\<lambda>s. None) \<rparr>"



section \<open>Properties of the tree builder\<close>

subsection \<open>The walk on path lists without inherited property names\<close>

lemma split_slash_simps [simp]:
  "split_slash [] = [[]]"
  "split_slash (c # cs) =
     (if c = CHR ''/'' then [] # split_slash cs
      else (case split_slash cs of [] \<Rightarrow> [[c]] | p # ps \<Rightarrow> (c # p) # ps))"
  by (simp_all add: split_slash_def)

lemma map_of_set_child:
  "map_of (children (set_child k c n)) k' = (if k' = k then Some c else map_of (children n) k')"
  by (simp add: set_child_def update_conv')

lemma node_at_set_child:
  "node_at (set_child k c n) (k' # ks) = (if k' = k then node_at c ks else node_at n (k' # ks))"
  by (simp add: map_of_set_child)

lemma set_child_fields:
  "name (set_child k c n) = name n" "path (set_child k c n) = path n"
  "isSelectable (set_child k c n) = isSelectable n"
  by (simp_all add: set_child_def)

lemma walk_safe:
  "safe_parts parts \<Longrightarrow>
   walk paths False cur parts t = Inr (insert_parts paths cur parts t, False)"
proof (induction parts arbitrary: cur t)
  case Nil
  show ?case by simp
next
  case (Cons part rest)
  from Cons.prems have inh: "inherited False part = None" and sr: "safe_parts rest"
    by (simp_all add: safe_parts_def)
  show ?case
    using Cons.IH [OF sr] inh
    by (simp add: enter_def Let_def split: option.splits)
qed

lemma insert_parts_fields:
  "name (insert_parts paths cur parts t) = name t"
  "path (insert_parts paths cur parts t) = path t"
  "isSelectable (insert_parts paths cur parts t) = isSelectable t"
  by (cases parts; simp add: set_child_fields)+

lemma enter_fields:
  "name (enter paths cur part t) = (case map_of (children t) part of Some c \<Rightarrow> name c | None \<Rightarrow> part)"
  "path (enter paths cur part t) = (case map_of (children t) part of Some c \<Rightarrow> path c | None \<Rightarrow> joinPath cur part)"
  "isSelectable (enter paths cur part t) = (joinPath cur part \<in> set paths \<or> (case map_of (children t) part of Some c \<Rightarrow> isSelectable c | None \<Rightarrow> False))"
  "children (enter paths cur part t) = (case map_of (children t) part of Some c \<Rightarrow> children c | None \<Rightarrow> [])"
  by (simp_all add: enter_def Let_def set_isSelectable_def split: option.splits)

lemma node_at_enter:
  "ks \<noteq> [] \<Longrightarrow> node_at (enter paths cur part t) ks = node_at t (part # ks)"
  by (cases ks) (simp_all add: enter_fields split: option.splits)

lemma has_node_insert_parts:
  "ks \<noteq> [] \<Longrightarrow>
   has_node (insert_parts paths cur parts t) ks \<longleftrightarrow> has_node t ks \<or> prefix ks parts"
proof (induction parts arbitrary: cur t ks)
  case Nil
  then show ?case by simp
next
  case (Cons part rest)
  from Cons.prems obtain k ks' where ks: "ks = k # ks'" by (cases ks) auto
  show ?case
  proof (cases "k = part")
    case False
    then show ?thesis by (simp add: ks has_node_def map_of_set_child)
  next
    case True
    show ?thesis
    proof (cases "ks' = []")
      case True
      with \<open>k = part\<close> show ?thesis by (simp add: ks has_node_def map_of_set_child)
    next
      case False
      have "has_node (insert_parts paths cur (part # rest) t) ks
            = has_node (insert_parts paths (joinPath cur part) rest (enter paths cur part t)) ks'"
        using \<open>k = part\<close> by (simp add: ks has_node_def map_of_set_child)
      also have "\<dots> = (has_node (enter paths cur part t) ks' \<or> prefix ks' rest)"
        using Cons.IH [OF False] .
      also have "\<dots> = (has_node t ks \<or> prefix ks (part # rest))"
        using False \<open>k = part\<close> by (simp add: ks has_node_def node_at_enter)
      finally show ?thesis .
    qed
  qed
qed

lemma well_marked_enter:
  assumes "well_marked paths cur t"
  shows "well_marked paths (joinPath cur part) (enter paths cur part t)"
  unfolding well_marked_def
proof (intro allI impI)
  fix ks n assume "ks \<noteq> []" and "node_at (enter paths cur part t) ks = Some n"
  then have "node_at t (part # ks) = Some n" by (simp add: node_at_enter)
  with assms \<open>ks \<noteq> []\<close> show "name n = last ks \<and> path n = foldl joinPath (joinPath cur part) ks \<and>
        (isSelectable n \<longleftrightarrow> foldl joinPath (joinPath cur part) ks \<in> set paths)"
    unfolding well_marked_def by fastforce
qed

lemma enter_top:
  assumes "well_marked paths cur t"
  shows "name (enter paths cur part t) = part \<and> path (enter paths cur part t) = joinPath cur part
     \<and> (isSelectable (enter paths cur part t) \<longleftrightarrow> joinPath cur part \<in> set paths)"
proof (cases "map_of (children t) part")
  case None
  then show ?thesis by (simp add: enter_fields)
next
  case (Some c)
  then have "node_at t [part] = Some c" by simp
  with assms have "name c = part \<and> path c = joinPath cur part \<and> (isSelectable c \<longleftrightarrow> joinPath cur part \<in> set paths)"
    unfolding well_marked_def by fastforce
  with Some show ?thesis by (simp add: enter_fields)
qed

lemma well_marked_insert_parts:
  "well_marked paths cur t \<Longrightarrow> well_marked paths cur (insert_parts paths cur parts t)"
proof (induction parts arbitrary: cur t)
  case Nil
  then show ?case by simp
next
  case (Cons part rest)
  let ?e = "enter paths cur part t"
  let ?c = "insert_parts paths (joinPath cur part) rest ?e"
  have wc: "well_marked paths (joinPath cur part) ?c"
    using Cons.IH [OF well_marked_enter [OF Cons.prems]] .
  have top: "name ?c = part \<and> path ?c = joinPath cur part \<and> (isSelectable ?c \<longleftrightarrow> joinPath cur part \<in> set paths)"
    using enter_top [OF Cons.prems] by (simp add: insert_parts_fields)
  show ?case
    unfolding well_marked_def
  proof (intro allI impI)
    fix ks n assume ne: "ks \<noteq> []" and at: "node_at (insert_parts paths cur (part # rest) t) ks = Some n"
    from ne obtain k ks' where ks: "ks = k # ks'" by (cases ks) auto
    show "name n = last ks \<and> path n = foldl joinPath cur ks \<and>
        (isSelectable n \<longleftrightarrow> foldl joinPath cur ks \<in> set paths)"
    proof (cases "k = part")
      case False
      with at have "node_at t ks = Some n" by (simp add: ks map_of_set_child)
      with Cons.prems ne show ?thesis unfolding well_marked_def by blast
    next
      case True
      with at have at': "node_at ?c ks' = Some n" by (simp add: ks map_of_set_child)
      show ?thesis
      proof (cases "ks' = []")
        case True
        with at' have "n = ?c" by simp
        with top True \<open>k = part\<close> show ?thesis by (simp add: ks)
      next
        case False
        with wc at' have "name n = last ks' \<and> path n = foldl joinPath (joinPath cur part) ks' \<and>
           (isSelectable n \<longleftrightarrow> foldl joinPath (joinPath cur part) ks' \<in> set paths)"
          unfolding well_marked_def by blast
        with False \<open>k = part\<close> show ?thesis by (simp add: ks)
      qed
    qed
  qed
qed


lemma forEach_path_safe:
  "\<forall>p \<in> set qs. safe_parts (split_slash p) \<Longrightarrow>
   forEach_path paths qs (t, False) = Inr (insert_paths paths qs t, False)"
  by (induction qs arbitrary: t) (simp_all add: walk_safe)

lemma insert_paths_fields:
  "name (insert_paths paths qs t) = name t"
  "path (insert_paths paths qs t) = path t"
  "isSelectable (insert_paths paths qs t) = isSelectable t"
  by (induction qs arbitrary: t; simp add: insert_parts_fields)+

lemma has_node_insert_paths:
  "ks \<noteq> [] \<Longrightarrow>
   has_node (insert_paths paths qs t) ks \<longleftrightarrow>
     has_node t ks \<or> (\<exists>q \<in> set qs. q \<noteq> [] \<and> prefix ks (split_slash q))"
proof (induction qs arbitrary: t)
  case Nil
  then show ?case by simp
next
  case (Cons q qs)
  show ?case
    using Cons.IH [OF Cons.prems] has_node_insert_parts [OF Cons.prems]
    by auto
qed

lemma well_marked_insert_paths:
  "well_marked paths [] t \<Longrightarrow> well_marked paths [] (insert_paths paths qs t)"
  by (induction qs arbitrary: t) (simp_all add: well_marked_insert_parts)

lemma well_marked_leaf: "well_marked paths cur (TreeNode n p s [])"
proof -
  have "node_at (TreeNode n p s []) ks = None" if "ks \<noteq> []" for ks
    using that by (cases ks) simp_all
  then show ?thesis by (simp add: well_marked_def)
qed

lemma has_node_leaf: "ks \<noteq> [] \<Longrightarrow> \<not> has_node (TreeNode n p s []) ks"
  by (cases ks) (simp_all add: has_node_def)

lemma buildTree_safe:
  "safe_paths paths \<Longrightarrow>
   buildTree False paths = Inr (insert_paths paths paths (TreeNode ''root'' [] False []), False)"
  by (simp add: buildTree_def safe_paths_def forEach_path_safe)

subsection \<open>Splitting a path and joining its segments\<close>

lemma split_slash_not_Nil [simp]: "split_slash p \<noteq> []"
  by (induction p) (auto split: list.splits)

lemma concat_split_slash:
  "concat (map ((#) CHR ''/'') (split_slash p)) = CHR ''/'' # p"
  by (induction p) (auto split: list.splits)

lemma foldl_joinPath:
  "cur \<noteq> [] \<Longrightarrow> foldl joinPath cur ks = cur @ concat (map ((#) CHR ''/'') ks)"
  by (induction ks arbitrary: cur) (simp_all add: joinPath_def)

lemma foldl_joinPath_Nil:
  "ks \<noteq> [] \<Longrightarrow> hd ks \<noteq> [] \<Longrightarrow> foldl joinPath [] ks = tl (concat (map ((#) CHR ''/'') ks))"
  by (cases ks) (simp_all add: joinPath_def foldl_joinPath)

lemma hd_split_slash:
  "p \<noteq> [] \<Longrightarrow> hd p \<noteq> CHR ''/'' \<Longrightarrow> hd (split_slash p) \<noteq> []"
  by (cases p) (auto split: list.splits)

lemma path_of_split_slash:
  "p \<noteq> [] \<Longrightarrow> hd p \<noteq> CHR ''/'' \<Longrightarrow> foldl joinPath [] (split_slash p) = p"
  by (simp add: foldl_joinPath_Nil hd_split_slash concat_split_slash)

lemma split_slash_parts_slash_free:
  "k \<in> set (split_slash p) \<Longrightarrow> CHR ''/'' \<notin> set k"
  by (induction p arbitrary: k) (auto split: list.splits if_splits)

lemma split_slash_append:
  "CHR ''/'' \<notin> set k \<Longrightarrow> split_slash (k @ CHR ''/'' # r) = k # split_slash r"
  by (induction k) (auto split: list.splits)

lemma split_slash_single:
  "CHR ''/'' \<notin> set k \<Longrightarrow> split_slash k = [k]"
  by (induction k) (auto split: list.splits)

lemma split_slash_join:
  "ks \<noteq> [] \<Longrightarrow> \<forall>k \<in> set ks. CHR ''/'' \<notin> set k \<Longrightarrow>
   split_slash (tl (concat (map ((#) CHR ''/'') ks))) = ks"
proof (induction ks)
  case Nil
  then show ?case by simp
next
  case (Cons k ks)
  show ?case
  proof (cases "ks = []")
    case True
    with Cons.prems show ?thesis by (simp add: split_slash_single)
  next
    case False
    then obtain k' ks' where ks: "ks = k' # ks'" by (cases ks) auto
    from Cons.IH [OF False] Cons.prems
    have "split_slash (tl (concat (map ((#) CHR ''/'') ks))) = ks" by simp
    then have "split_slash (k' @ concat (map ((#) CHR ''/'') ks')) = ks" by (simp add: ks)
    with Cons.prems show ?thesis by (simp add: ks split_slash_append)
  qed
qed

lemma buildTree_safe_char:
  assumes "safe_paths paths"
  shows "\<exists>t. buildTree False paths = Inr (t, False)
    \<and> name t = ''root'' \<and> path t = [] \<and> \<not> isSelectable t
    \<and> well_marked paths [] t
    \<and> (\<forall>ks. ks \<noteq> [] \<longrightarrow>
           has_node t ks = (\<exists>q \<in> set paths. q \<noteq> [] \<and> prefix ks (split_slash q)))"
proof -
  define t where "t = insert_paths paths paths (TreeNode ''root'' [] False [])"
  have 1: "buildTree False paths = Inr (t, False)"
    unfolding t_def by (rule buildTree_safe [OF assms])
  have 2: "name t = ''root''" "path t = []" "\<not> isSelectable t"
    unfolding t_def by (simp_all add: insert_paths_fields)
  have 3: "well_marked paths [] t"
    unfolding t_def by (rule well_marked_insert_paths [OF well_marked_leaf])
  have 4: "\<forall>ks. ks \<noteq> [] \<longrightarrow>
           has_node t ks = (\<exists>q \<in> set paths. q \<noteq> [] \<and> prefix ks (split_slash q))"
  proof (intro allI impI)
    fix ks :: "string list" assume ne: "ks \<noteq> []"
    show "has_node t ks = (\<exists>q \<in> set paths. q \<noteq> [] \<and> prefix ks (split_slash q))"
      unfolding t_def
      using has_node_insert_paths [OF ne, of paths paths "TreeNode ''root'' [] False []"]
        has_node_leaf [OF ne, of "''root''" "[]" False]
      by simp
  qed
  from 1 2 3 4 show ?thesis by (intro exI [of _ t] conjI)
qed

subsection \<open>Selectable nodes and the nodes of the input paths\<close>

text \<open>
  Claim C1, as amended.  For every path list none of whose segments is a property name
  inherited from \<open>Object.prototype\<close>, \<open>buildTree\<close> returns a tree whose root is not
  selectable and in which every node other than the root is selectable if and only if its
  full path is a member of the list; every non-empty path of the list that does not begin
  with a slash is the full path of the node reached by its segments, and of no other node
  when no path of the list begins with a slash.  Nodes are identified by their chain of
  child keys from the root.
\<close>

theorem buildTree_selectable_iff_member:
  assumes "safe_paths paths"
  shows "\<exists>t. buildTree False paths = Inr (t, False) \<and> \<not> isSelectable t \<and>
     (\<forall>ks n. ks \<noteq> [] \<longrightarrow> node_at t ks = Some n \<longrightarrow> (isSelectable n \<longleftrightarrow> path n \<in> set paths)) \<and>
     (\<forall>p \<in> set paths. p \<noteq> [] \<and> hd p \<noteq> CHR ''/'' \<longrightarrow>
          (\<exists>n. node_at t (split_slash p) = Some n \<and> path n = p)) \<and>
     ((\<forall>q \<in> set paths. q \<noteq> [] \<longrightarrow> hd q \<noteq> CHR ''/'') \<longrightarrow>
          (\<forall>p \<in> set paths. p \<noteq> [] \<longrightarrow> (\<exists>!ks. \<exists>n. node_at t ks = Some n \<and> path n = p)))"
proof -
  from buildTree_safe_char [OF assms] obtain t where
    bt: "buildTree False paths = Inr (t, False)" and
    root: "path t = []" "\<not> isSelectable t" and
    wm: "well_marked paths [] t" and
    dom: "\<forall>ks. ks \<noteq> [] \<longrightarrow>
           has_node t ks = (\<exists>q \<in> set paths. q \<noteq> [] \<and> prefix ks (split_slash q))"
    by (elim exE conjE)
  have wmD: "name n = last ks \<and> path n = foldl joinPath [] ks \<and>
        (isSelectable n \<longleftrightarrow> foldl joinPath [] ks \<in> set paths)"
    if "ks \<noteq> []" "node_at t ks = Some n" for ks n
    using wm that unfolding well_marked_def by blast
  have sel: "\<forall>ks n. ks \<noteq> [] \<longrightarrow> node_at t ks = Some n \<longrightarrow> (isSelectable n \<longleftrightarrow> path n \<in> set paths)"
    using wmD by simp
  have ex: "\<exists>n. node_at t (split_slash p) = Some n \<and> path n = p"
    if "p \<in> set paths" "p \<noteq> []" "hd p \<noteq> CHR ''/''" for p
  proof -
    have "has_node t (split_slash p)"
      using dom that(1,2) by auto
    then obtain n where n: "node_at t (split_slash p) = Some n"
      by (auto simp: has_node_def)
    from wmD [OF split_slash_not_Nil n] have "path n = foldl joinPath [] (split_slash p)"
      by simp
    with that n show ?thesis by (simp add: path_of_split_slash)
  qed
  have uniq: "ks = split_slash p"
    if nl: "\<forall>q \<in> set paths. q \<noteq> [] \<longrightarrow> hd q \<noteq> CHR ''/''"
      and p: "p \<noteq> []" and at: "node_at t ks = Some n" and pn: "path n = p" for p ks n
  proof -
    have ne: "ks \<noteq> []"
    proof
      assume "ks = []"
      with at have "n = t" by simp
      with pn root p show False by simp
    qed
    from at have "has_node t ks" by (simp add: has_node_def)
    with dom ne obtain q where q: "q \<in> set paths" "q \<noteq> []" "prefix ks (split_slash q)"
      by blast
    from q nl have "hd (split_slash q) \<noteq> []" by (simp add: hd_split_slash)
    moreover from q(3) ne have "hd ks = hd (split_slash q)"
      by (auto simp: prefix_def)
    ultimately have hk: "hd ks \<noteq> []" by simp
    from q(3) have "set ks \<subseteq> set (split_slash q)" by (rule set_mono_prefix)
    then have sf: "\<forall>k \<in> set ks. CHR ''/'' \<notin> set k"
      using split_slash_parts_slash_free by blast
    from wmD [OF ne at] have "path n = foldl joinPath [] ks" by simp
    then have "p = tl (concat (map ((#) CHR ''/'') ks))"
      using pn ne hk by (simp add: foldl_joinPath_Nil)
    then show ?thesis using split_slash_join [OF ne sf] by simp
  qed
  have ex': "\<forall>p \<in> set paths. p \<noteq> [] \<and> hd p \<noteq> CHR ''/'' \<longrightarrow>
          (\<exists>n. node_at t (split_slash p) = Some n \<and> path n = p)"
    using ex by blast
  have one: "(\<forall>q \<in> set paths. q \<noteq> [] \<longrightarrow> hd q \<noteq> CHR ''/'') \<longrightarrow>
          (\<forall>p \<in> set paths. p \<noteq> [] \<longrightarrow> (\<exists>!ks. \<exists>n. node_at t ks = Some n \<and> path n = p))"
  proof (intro impI ballI)
    fix p assume nl: "\<forall>q \<in> set paths. q \<noteq> [] \<longrightarrow> hd q \<noteq> CHR ''/''"
      and p: "p \<in> set paths" "p \<noteq> []"
    show "\<exists>!ks. \<exists>n. node_at t ks = Some n \<and> path n = p"
    proof (rule ex1I [of _ "split_slash p"])
      show "\<exists>n. node_at t (split_slash p) = Some n \<and> path n = p"
        using ex [of p] p nl by blast
    next
      fix ks assume "\<exists>n. node_at t ks = Some n \<and> path n = p"
      then show "ks = split_slash p" using uniq [OF nl p(2)] by blast
    qed
  qed
  from bt root(2) sel ex' one show ?thesis
    by (intro exI [of _ t] conjI)
qed

theorem buildTree_selectable_iff_member_witness:
  "safe_paths [''a/b'', ''a''] \<and>
   (\<exists>t. buildTree False [''a/b'', ''a''] = Inr (t, False) \<and> \<not> isSelectable t \<and>
     (\<forall>ks n. ks \<noteq> [] \<longrightarrow> node_at t ks = Some n \<longrightarrow>
        (isSelectable n \<longleftrightarrow> path n \<in> set [''a/b'', ''a''])) \<and>
     (\<forall>p \<in> set [''a/b'', ''a'']. p \<noteq> [] \<and> hd p \<noteq> CHR ''/'' \<longrightarrow>
          (\<exists>n. node_at t (split_slash p) = Some n \<and> path n = p)) \<and>
     ((\<forall>q \<in> set [''a/b'', ''a'']. q \<noteq> [] \<longrightarrow> hd q \<noteq> CHR ''/'') \<longrightarrow>
          (\<forall>p \<in> set [''a/b'', ''a'']. p \<noteq> [] \<longrightarrow>
             (\<exists>!ks. \<exists>n. node_at t ks = Some n \<and> path n = p))))"
proof (rule conjI)
  show h: "safe_paths [''a/b'', ''a'']"
    by (simp add: safe_paths_def safe_parts_def inherited_def objectPrototypeFunctions_def)
  show "\<exists>t. buildTree False [''a/b'', ''a''] = Inr (t, False) \<and> \<not> isSelectable t \<and>
     (\<forall>ks n. ks \<noteq> [] \<longrightarrow> node_at t ks = Some n \<longrightarrow>
        (isSelectable n \<longleftrightarrow> path n \<in> set [''a/b'', ''a''])) \<and>
     (\<forall>p \<in> set [''a/b'', ''a'']. p \<noteq> [] \<and> hd p \<noteq> CHR ''/'' \<longrightarrow>
          (\<exists>n. node_at t (split_slash p) = Some n \<and> path n = p)) \<and>
     ((\<forall>q \<in> set [''a/b'', ''a'']. q \<noteq> [] \<longrightarrow> hd q \<noteq> CHR ''/'') \<longrightarrow>
          (\<forall>p \<in> set [''a/b'', ''a'']. p \<noteq> [] \<longrightarrow>
             (\<exists>!ks. \<exists>n. node_at t ks = Some n \<and> path n = p)))"
    by (rule buildTree_selectable_iff_member [OF h])
qed

text \<open>
  Claim C1 as stated fails on the list \<open>["", "/a", "a"]\<close>: the root has the empty path,
  which is in the list, and is not selectable; no node has the path \<open>/a\<close>; and two nodes
  have the path \<open>a\<close>.
\<close>

lemmas tree_eval = Let_def buildTree_def joinPath_def set_child_def set_isSelectable_def
  inherited_def objectPrototypeFunctions_def

theorem buildTree_selectable_counterexample:
  "buildTree False ['''', ''/a'', ''a''] =
     Inr (TreeNode ''root'' [] False
            [([], TreeNode [] [] True [(''a'', TreeNode ''a'' ''a'' True [])]),
             (''a'', TreeNode ''a'' ''a'' True [])], False)"
  by (simp add: tree_eval)

subsection \<open>The root node\<close>

lemma walk_fields:
  "walk paths pol cur parts t = Inr (t', pol') \<Longrightarrow>
   name t' = name t \<and> path t' = path t \<and> isSelectable t' = isSelectable t"
  by (cases parts)
     (auto simp: Let_def set_child_fields split: option.splits sum.splits if_splits prod.splits)

lemma forEach_path_fields:
  "forEach_path paths qs st = Inr st' \<Longrightarrow>
   name (fst st') = name (fst st) \<and> path (fst st') = path (fst st)
   \<and> isSelectable (fst st') = isSelectable (fst st)"
proof (induction qs arbitrary: st)
  case Nil
  then show ?case by simp
next
  case (Cons q qs)
  show ?case
  proof (cases "q = []")
    case True
    with Cons show ?thesis by simp
  next
    case False
    with Cons.prems obtain st1 where
      w: "walk paths (snd st) [] (split_slash q) (fst st) = Inr st1" and
      f: "forEach_path paths qs st1 = Inr st'"
      by (auto split: sum.splits)
    from w have "name (fst st1) = name (fst st) \<and> path (fst st1) = path (fst st)
       \<and> isSelectable (fst st1) = isSelectable (fst st)"
      using walk_fields [of paths "snd st" "[]" "split_slash q" "fst st" "fst st1" "snd st1"] by simp
    with Cons.IH [OF f] show ?thesis by simp
  qed
qed

text \<open>
  Claim C9, as amended.  Whenever \<open>buildTree\<close> returns a tree, its root is named
  \<open>root\<close>, has the empty path and is not selectable.
\<close>

theorem buildTree_root:
  "buildTree polluted paths = Inr (t, polluted') \<Longrightarrow>
   name t = ''root'' \<and> path t = [] \<and> \<not> isSelectable t"
  using forEach_path_fields [of paths paths "(TreeNode ''root'' [] False [], polluted)" "(t, polluted')"]
  by (simp add: buildTree_def)

theorem buildTree_root_witness:
  "buildTree False [''a/b''] =
     Inr (TreeNode ''root'' [] False
            [(''a'', TreeNode ''a'' ''a'' False [(''b'', TreeNode ''b'' ''a/b'' True [])])], False)
   \<and> name (TreeNode ''root'' [] False
            [(''a'', TreeNode ''a'' ''a'' False [(''b'', TreeNode ''b'' ''a/b'' True [])])]) = ''root''"
proof -
  have e: "buildTree False [''a/b''] =
     Inr (TreeNode ''root'' [] False
            [(''a'', TreeNode ''a'' ''a'' False [(''b'', TreeNode ''b'' ''a/b'' True [])])], False)"
    by (simp add: tree_eval)
  from buildTree_root [OF e] e show ?thesis by simp
qed

text \<open>Claim C9 as stated fails on the empty list: the name of the root is not empty.\<close>

theorem buildTree_root_name_counterexample:
  "buildTree False [] = Inr (TreeNode ''root'' [] False [], False)
   \<and> name (TreeNode ''root'' [] False []) \<noteq> []"
  by (simp add: buildTree_def)

subsection \<open>Order of the input paths\<close>

text \<open>
  Claim C7 fails on the code.  The path \<open>__proto__\<close> reads \<open>Object.prototype\<close> out of an
  empty \<open>children\<close> object and assigns \<open>isSelectable\<close> on it; from then on every
  \<open>children\<close> object inherits a truthy \<open>isSelectable\<close>.  With the path \<open>isSelectable\<close>
  after it the walk reaches the primitive \<open>true\<close> and the assignment throws; with the same
  two paths in the other order a tree with one node is returned.
\<close>

theorem buildTree_order_dependent:
  "buildTree False [''__proto__'', ''isSelectable''] = Inl TypeError \<and>
   buildTree False [''isSelectable'', ''__proto__''] =
     Inr (TreeNode ''root'' [] False
            [(''isSelectable'', TreeNode ''isSelectable'' ''isSelectable'' True [])], True)"
  by (simp add: tree_eval)

text \<open>
  On lists without inherited property names the tree depends only on the set of paths:
  the same key chains lead to nodes, and these carry the same name, path and flag.
\<close>

lemma buildTree_order_independent_safe:
  assumes "safe_paths paths" and eq: "set paths' = set paths"
  shows "\<exists>t t'. buildTree False paths = Inr (t, False) \<and> buildTree False paths' = Inr (t', False)
     \<and> (\<forall>ks. map_option node_info (node_at t ks) = map_option node_info (node_at t' ks))"
proof -
  from assms have safe': "safe_paths paths'" by (simp add: safe_paths_def)
  from buildTree_safe_char [OF assms(1)] obtain t where
    bt: "buildTree False paths = Inr (t, False)" and
    root: "name t = ''root''" "path t = []" "\<not> isSelectable t" and
    wm: "well_marked paths [] t" and
    dom: "\<forall>ks. ks \<noteq> [] \<longrightarrow>
           has_node t ks = (\<exists>q \<in> set paths. q \<noteq> [] \<and> prefix ks (split_slash q))"
    by (elim exE conjE)
  from buildTree_safe_char [OF safe'] obtain t' where
    bt': "buildTree False paths' = Inr (t', False)" and
    root': "name t' = ''root''" "path t' = []" "\<not> isSelectable t'" and
    wm': "well_marked paths' [] t'" and
    dom': "\<forall>ks. ks \<noteq> [] \<longrightarrow>
           has_node t' ks = (\<exists>q \<in> set paths'. q \<noteq> [] \<and> prefix ks (split_slash q))"
    by (elim exE conjE)
  have same: "map_option node_info (node_at t ks) = map_option node_info (node_at t' ks)" for ks
  proof (cases "ks = []")
    case True
    with root root' show ?thesis by (simp add: node_info_def)
  next
    case False
    with dom dom' eq have hn: "has_node t ks = has_node t' ks" by simp
    show ?thesis
    proof (cases "node_at t ks")
      case None
      with hn show ?thesis by (simp add: has_node_def)
    next
      case (Some n)
      with hn obtain n' where n': "node_at t' ks = Some n'" by (auto simp: has_node_def)
      from wm False Some have "node_info n = (last ks, foldl joinPath [] ks, foldl joinPath [] ks \<in> set paths)"
        unfolding well_marked_def node_info_def by blast
      moreover from wm' False n' have "node_info n' = (last ks, foldl joinPath [] ks, foldl joinPath [] ks \<in> set paths')"
        unfolding well_marked_def node_info_def by blast
      ultimately show ?thesis using Some n' eq by simp
    qed
  qed
  from bt bt' same show ?thesis by blast
qed

section \<open>Properties of the folder cache\<close>

text \<open>
  A call for a folder path that has an own entry in the cache, an empty list included,
  changes nothing and calls the service not at all; after a call that missed, a second call
  for the same path changes nothing either, so the two calls together call the service once.
\<close>

lemma cached_own: "map_of cache folderPath \<noteq> None \<Longrightarrow> cached polluted cache folderPath"
  by (simp add: cached_def)

lemma loadImagesForFolder_cached_noop:
  "map_of (imagesByFolder s) folderPath \<noteq> None \<Longrightarrow>
   loadImagesForFolder polluted getImages folderPath s = s"
  by (simp add: loadImagesForFolder_def cached_own)

lemma loadImagesForFolder_miss:
  assumes "\<not> cached polluted (imagesByFolder s) folderPath"
  shows "getImagesCalls (loadImagesForFolder polluted getImages folderPath s)
           = getImagesCalls s @ [folderPath]"
    and "map_of (imagesByFolder (loadImagesForFolder polluted getImages folderPath s)) folderPath
           = Some (case getImages folderPath of Inl err \<Rightarrow> [] | Inr ps \<Rightarrow> map toImage ps)"
  using assms
  by (simp_all add: loadImagesForFolder_def Let_def update_conv' split: sum.splits)

lemma loadImagesForFolder_twice:
  assumes "\<not> cached polluted (imagesByFolder s) folderPath"
  shows "loadImagesForFolder polluted' getImages' folderPath
           (loadImagesForFolder polluted getImages folderPath s)
         = loadImagesForFolder polluted getImages folderPath s"
    and "getImagesCalls (loadImagesForFolder polluted' getImages' folderPath
           (loadImagesForFolder polluted getImages folderPath s))
         = getImagesCalls s @ [folderPath]"
proof -
  have "map_of (imagesByFolder (loadImagesForFolder polluted getImages folderPath s)) folderPath \<noteq> None"
    using loadImagesForFolder_miss(2) [OF assms] by simp
  then show "loadImagesForFolder polluted' getImages' folderPath
           (loadImagesForFolder polluted getImages folderPath s)
         = loadImagesForFolder polluted getImages folderPath s"
    by (rule loadImagesForFolder_cached_noop)
  then show "getImagesCalls (loadImagesForFolder polluted' getImages' folderPath
           (loadImagesForFolder polluted getImages folderPath s))
         = getImagesCalls s @ [folderPath]"
    using loadImagesForFolder_miss(1) [OF assms] by simp
qed

text \<open>
  For a property name inherited from \<open>Object.prototype\<close> the guard of
  \<open>loadImagesForFolder\<close> is truthy although the cache holds no entry, and the call returns
  at once.  Such a name does not reach the function: its callers (the selection effects
  and the toggle of an image list) call it only after they have read
  \<open>imagesByFolder[path]\<close> themselves and found it falsy or undefined.
\<close>

lemma loadImagesForFolder_inherited:
  "inherited polluted folderPath \<noteq> None \<Longrightarrow>
   loadImagesForFolder polluted getImages folderPath s = s"
  by (simp add: loadImagesForFolder_def cached_def)

text \<open>
  Claim C5.  For every folder path that reaches \<open>loadImagesForFolder\<close>, that is, every
  path that is not a property name inherited from \<open>Object.prototype\<close>: a call when the
  cache already holds an entry for the path, an empty list included, calls the service
  not at all and leaves the state unchanged; hence, starting without an entry, two
  successive calls for the path call the service exactly once, the second call leaves the
  state as the first left it, and the cache then holds the list that the first call
  stored.
\<close>

theorem loadImagesForFolder_one_fetch:
  assumes "inherited polluted folderPath = None"
  shows "(map_of (imagesByFolder s) folderPath \<noteq> None \<longrightarrow>
            loadImagesForFolder polluted getImages folderPath s = s)
     \<and> (map_of (imagesByFolder s) folderPath = None \<longrightarrow>
            getImagesCalls
              (loadImagesForFolder polluted' getImages' folderPath
                 (loadImagesForFolder polluted getImages folderPath s))
              = getImagesCalls s @ [folderPath]
          \<and> loadImagesForFolder polluted' getImages' folderPath
                 (loadImagesForFolder polluted getImages folderPath s)
              = loadImagesForFolder polluted getImages folderPath s
          \<and> map_of (imagesByFolder (loadImagesForFolder polluted getImages folderPath s))
                 folderPath
              = Some (case getImages folderPath of
                        Inl err \<Rightarrow> [] | Inr imagePaths \<Rightarrow> map toImage imagePaths))"
proof (intro conjI impI)
  assume "map_of (imagesByFolder s) folderPath \<noteq> None"
  then show "loadImagesForFolder polluted getImages folderPath s = s"
    by (rule loadImagesForFolder_cached_noop)
next
  assume "map_of (imagesByFolder s) folderPath = None"
  with assms have miss: "\<not> cached polluted (imagesByFolder s) folderPath"
    by (simp add: cached_def)
  show "getImagesCalls
          (loadImagesForFolder polluted' getImages' folderPath
             (loadImagesForFolder polluted getImages folderPath s))
          = getImagesCalls s @ [folderPath]"
    by (rule loadImagesForFolder_twice(2) [OF miss])
  show "loadImagesForFolder polluted' getImages' folderPath
             (loadImagesForFolder polluted getImages folderPath s)
          = loadImagesForFolder polluted getImages folderPath s"
    by (rule loadImagesForFolder_twice(1) [OF miss])
  show "map_of (imagesByFolder (loadImagesForFolder polluted getImages folderPath s))
             folderPath
          = Some (case getImages folderPath of
                    Inl err \<Rightarrow> [] | Inr imagePaths \<Rightarrow> map toImage imagePaths)"
    by (rule loadImagesForFolder_miss(2) [OF miss])
qed

theorem loadImagesForFolder_one_fetch_witness:
  "inherited False ''a/b'' = None
   \<and> map_of (imagesByFolder \<lparr> imagesByFolder = [], isAppBusy = False, logged = [],
                               getImagesCalls = [] \<rparr>) ''a/b'' = None
   \<and> loadImagesForFolder False (\<lambda>p. Inr [''a/b/x.JPG'']) ''a/b''
        \<lparr> imagesByFolder = [], isAppBusy = False, logged = [], getImagesCalls = [] \<rparr>
      = \<lparr> imagesByFolder =
            [(''a/b'', [\<lparr> image_id = ''a/b/x.JPG'', image_name = ''x.JPG'',
                           image_fullPath = ''a/b/x.JPG'', image_format = ''jpg'' \<rparr>])],
          isAppBusy = False,
          logged = [(INFO, ''Fetching images for sidebar view: a/b'')],
          getImagesCalls = [''a/b''] \<rparr>
   \<and> getImagesCalls
        (loadImagesForFolder False (\<lambda>p. Inr [''a/b/x.JPG'']) ''a/b''
           (loadImagesForFolder False (\<lambda>p. Inr [''a/b/x.JPG'']) ''a/b''
              \<lparr> imagesByFolder = [], isAppBusy = False, logged = [], getImagesCalls = [] \<rparr>))
      = [''a/b'']
   \<and> loadImagesForFolder False (\<lambda>p. Inr [''a/b/x.JPG'']) ''a/b''
        (loadImagesForFolder False (\<lambda>p. Inr [''a/b/x.JPG'']) ''a/b''
           \<lparr> imagesByFolder = [], isAppBusy = False, logged = [], getImagesCalls = [] \<rparr>)
      = loadImagesForFolder False (\<lambda>p. Inr [''a/b/x.JPG'']) ''a/b''
          \<lparr> imagesByFolder = [], isAppBusy = False, logged = [], getImagesCalls = [] \<rparr>"
proof -
  let ?s = "\<lparr> imagesByFolder = [], isAppBusy = False, logged = [], getImagesCalls = [] \<rparr>"
  let ?g = "\<lambda>p :: string. Inr [''a/b/x.JPG''] :: error + string list"
  have h: "inherited False ''a/b'' = None"
    by (simp add: inherited_def objectPrototypeFunctions_def)
  have n: "map_of (imagesByFolder ?s) ''a/b'' = None" by simp
  have e: "loadImagesForFolder False ?g ''a/b'' ?s
      = \<lparr> imagesByFolder =
            [(''a/b'', [\<lparr> image_id = ''a/b/x.JPG'', image_name = ''x.JPG'',
                           image_fullPath = ''a/b/x.JPG'', image_format = ''jpg'' \<rparr>])],
          isAppBusy = False,
          logged = [(INFO, ''Fetching images for sidebar view: a/b'')],
          getImagesCalls = [''a/b''] \<rparr>"
    by (simp add: loadImagesForFolder_def cached_def inherited_def objectPrototypeFunctions_def
          toImage_def toLowerCase_def lower_char_def char_of_def bit_Suc_0_iff Let_def)
  from loadImagesForFolder_one_fetch [OF h, of ?s ?g False ?g] n
  have t: "getImagesCalls
        (loadImagesForFolder False ?g ''a/b'' (loadImagesForFolder False ?g ''a/b'' ?s))
      = getImagesCalls ?s @ [''a/b'']
    \<and> loadImagesForFolder False ?g ''a/b'' (loadImagesForFolder False ?g ''a/b'' ?s)
      = loadImagesForFolder False ?g ''a/b'' ?s"
    by blast
  have t1: "getImagesCalls
        (loadImagesForFolder False ?g ''a/b'' (loadImagesForFolder False ?g ''a/b'' ?s))
      = [''a/b'']"
    using t [THEN conjunct1] by simp
  note t2 = t [THEN conjunct2]
  from h n e t1 t2 show ?thesis by (intro conjI)
qed

text \<open>
  Claim C6.  If a call finds no cache entry and the fetch fails, the cache afterwards
  holds the empty list for that folder path and the service was called once; a further
  call for the same path changes nothing, whatever the service would answer; the refresh
  action empties the cache.
\<close>

theorem loadImagesForFolder_failed_fetch:
  assumes "\<not> cached polluted (imagesByFolder s) folderPath"
    and "getImages folderPath = Inl err"
  shows "map_of (imagesByFolder (loadImagesForFolder polluted getImages folderPath s)) folderPath
           = Some []
     \<and> getImagesCalls (loadImagesForFolder polluted getImages folderPath s)
           = getImagesCalls s @ [folderPath]
     \<and> loadImagesForFolder polluted' getImages' folderPath
           (loadImagesForFolder polluted getImages folderPath s)
         = loadImagesForFolder polluted getImages folderPath s
     \<and> imagesByFolder (handleRefreshFolders
           (loadImagesForFolder polluted getImages folderPath s)) = []"
  using loadImagesForFolder_miss [OF assms(1), of getImages]
    loadImagesForFolder_twice(1) [OF assms(1), of polluted' getImages' getImages] assms(2)
  by (simp add: handleRefreshFolders_def)

theorem loadImagesForFolder_failed_fetch_witness:
  "\<not> cached False (imagesByFolder \<lparr> imagesByFolder = [], isAppBusy = False, logged = [],
                                     getImagesCalls = [] \<rparr>) ''a/b''
   \<and> (\<lambda>p. Inl FetchError :: error + string list) ''a/b'' = Inl FetchError
   \<and> loadImagesForFolder False (\<lambda>p. Inl FetchError) ''a/b''
        \<lparr> imagesByFolder = [], isAppBusy = False, logged = [], getImagesCalls = [] \<rparr>
      = \<lparr> imagesByFolder = [(''a/b'', [])], isAppBusy = False,
          logged = [(INFO, ''Fetching images for sidebar view: a/b''),
                    (ERROR, ''Failed to fetch images for a/b'')],
          getImagesCalls = [''a/b''] \<rparr>
   \<and> loadImagesForFolder False (\<lambda>p. Inr [''a/b/x.jpg''])  ''a/b''
        (loadImagesForFolder False (\<lambda>p. Inl FetchError) ''a/b''
           \<lparr> imagesByFolder = [], isAppBusy = False, logged = [], getImagesCalls = [] \<rparr>)
      = loadImagesForFolder False (\<lambda>p. Inl FetchError) ''a/b''
           \<lparr> imagesByFolder = [], isAppBusy = False, logged = [], getImagesCalls = [] \<rparr>"
proof -
  let ?s = "\<lparr> imagesByFolder = [], isAppBusy = False, logged = [], getImagesCalls = [] \<rparr>"
  let ?g = "\<lambda>p :: string. Inl FetchError :: error + string list"
  have h1: "\<not> cached False (imagesByFolder ?s) ''a/b''"
    by (simp add: cached_def inherited_def objectPrototypeFunctions_def)
  have h2: "?g ''a/b'' = Inl FetchError" by simp
  have e: "loadImagesForFolder False ?g ''a/b'' ?s
      = \<lparr> imagesByFolder = [(''a/b'', [])], isAppBusy = False,
          logged = [(INFO, ''Fetching images for sidebar view: a/b''),
                    (ERROR, ''Failed to fetch images for a/b'')],
          getImagesCalls = [''a/b''] \<rparr>"
    by (simp add: loadImagesForFolder_def cached_def inherited_def objectPrototypeFunctions_def)
  from loadImagesForFolder_failed_fetch [OF h1 h2, of False "\<lambda>p. Inr [''a/b/x.jpg'']"] h1 e
  show ?thesis by simp
qed

section \<open>Properties of the metadata extractor\<close>

text \<open>
  The extractor is modelled in an environment in which \<open>Object.prototype\<close> has no
  enumerable property, as at program start: the \<open>for \<dots> in\<close> loops over the decoded tags
  then visit own properties only.
\<close>

subsection \<open>Exceptions and the segment scan\<close>

lemma bindE_simps [simp]: "bindE (Inl e) f = Inl e" "bindE (Inr x) f = f x"
  by (simp_all add: bindE_def)

lemma bindE_eq_Inr: "bindE m f = Inr y \<longleftrightarrow> (\<exists>x. m = Inr x \<and> f x = Inr y)"
  by (cases m) simp_all

lemma range_only_Inr [simp]: "range_only (Inr x)"
  by (simp add: range_only_def)

lemma range_only_RangeError [simp]: "range_only (Inl RangeError)"
  by (simp add: range_only_def)

lemma range_only_bindE:
  "range_only m \<Longrightarrow> (\<And>x. m = Inr x \<Longrightarrow> range_only (f x)) \<Longrightarrow> range_only (bindE m f)"
  by (cases m) (simp_all add: range_only_def)

lemma range_only_toIndex: "range_only (toIndex rt off)"
  by (simp add: toIndex_def split: offset.splits option.splits)

lemma range_only_getUint8: "range_only (getUint8 rt file off)"
  unfolding getUint8_def by (rule range_only_bindE [OF range_only_toIndex]) simp

lemma range_only_getUint16: "range_only (getUint16 rt file off le)"
  unfolding getUint16_def by (rule range_only_bindE [OF range_only_toIndex]) (simp add: Let_def)

lemma range_only_getUint32: "range_only (getUint32 rt file off le)"
  unfolding getUint32_def by (rule range_only_bindE [OF range_only_toIndex]) (simp add: Let_def)

lemma range_only_readRational: "range_only (readRational rt file off bigEnd)"
  unfolding readRational_def
  by (intro range_only_bindE range_only_getUint32) simp

lemma range_only_mapE:
  "(\<And>x. range_only (f x)) \<Longrightarrow> range_only (mapE f xs)"
  by (induction xs) (auto intro!: range_only_bindE)

lemma range_only_decodeValue:
  "range_only (decodeValue rt file bigEnd format components totalSize valuePointer dataOffset valueAddress)"
  unfolding decodeValue_def
  by (auto intro!: range_only_bindE range_only_mapE range_only_getUint8 range_only_getUint16
        range_only_getUint32 range_only_readRational)

lemma range_only_readEntry:
  "range_only (readEntry rt file tiffStart dirStart tags bigEnd i result)"
  unfolding readEntry_def Let_def
  by (auto intro!: range_only_bindE range_only_getUint16 range_only_getUint32
        range_only_decodeValue split: option.splits)

lemma range_only_readEntries:
  "range_only (readEntries rt file tiffStart dirStart tags bigEnd is result)"
  by (induction "is" arbitrary: result) (auto intro!: range_only_bindE range_only_readEntry)

lemma range_only_readTags:
  "range_only (readTags rt file tiffStart dirStart tags bigEnd)"
  unfolding readTags_def
  by (auto intro!: range_only_bindE range_only_getUint16 range_only_readEntries)

lemma range_only_followPointer:
  "range_only (followPointer rt file tiffHeaderOffset bigEnd pointerName table tags)"
  unfolding followPointer_def
  by (auto intro!: range_only_bindE range_only_readTags split: option.splits)

lemma range_only_collectTags: "range_only (collectTags rt file offset)"
  unfolding collectTags_def Let_def
  by (auto intro!: range_only_bindE range_only_getUint16 range_only_getUint32
        range_only_readTags range_only_followPointer)

lemma range_only_segment: "range_only (segment rt file offset)"
  unfolding segment_def
  by (auto intro!: range_only_bindE range_only_getUint8 range_only_getUint16
        range_only_collectTags)

lemma segment_Next:
  "segment rt file offset = Inr (Next offset') \<Longrightarrow> offset + 2 \<le> offset'"
  unfolding segment_def
  by (auto simp: bindE_eq_Inr split: if_splits)

lemma finishTags_nonempty: "finishTags T = Some m \<Longrightarrow> m \<noteq> []"
  by (auto simp: finishTags_def Let_def split: if_splits)

lemma segment_Return:
  "segment rt file offset = Inr (Return (Some m)) \<Longrightarrow>
   \<exists>T. collectTags rt file offset = Inr (Some T) \<and> finishTags T = Some m"
  unfolding segment_def
  by (auto simp: bindE_eq_Inr split: if_splits option.splits)

lemma scan_result:
  "\<exists>r. scan rt file offset = Some r \<and> range_only r \<and>
     (\<forall>m. r = Inr (Some m) \<longrightarrow>
        (\<exists>offset' T. collectTags rt file offset' = Inr (Some T) \<and> finishTags T = Some m))"
proof (induction "length file - offset" arbitrary: offset rule: less_induct)
  case less
  show ?case
  proof (cases "offset < length file")
    case False
    then show ?thesis by (subst scan.simps) simp
  next
    case True
    show ?thesis
    proof (cases "segment rt file offset")
      case (Inl e)
      with range_only_segment [of rt "file" offset] have "e = RangeError"
        by (simp add: range_only_def)
      with Inl True show ?thesis by (subst scan.simps) simp
    next
      case (Inr st)
      show ?thesis
      proof (cases st)
        case (Return r)
        with Inr True segment_Return [of rt "file" offset] show ?thesis
          by (subst scan.simps) auto
      next
        case (Next offset')
        with Inr have "segment rt file offset = Inr (Next offset')" by simp
        then have "offset + 2 \<le> offset'" by (rule segment_Next)
        with True have "length file - offset' < length file - offset" by arith
        from less [OF this] Inr Next True show ?thesis
          by (subst scan.simps) simp
      qed
    qed
  qed
qed

lemma off_add_numOff [simp]: "off_add (numOff a) k = numOff (a + k)"
  by (simp add: off_add_def numOff_def)

lemma toIndex_numOff [simp]: "toIndex rt (numOff a) = Inr a"
  by (simp add: toIndex_def numOff_def)

lemma getUint8_numOff:
  "getUint8 rt file (numOff a) = (if a + 1 \<le> length file then Inr (unat (file ! a)) else Inl RangeError)"
  by (simp add: getUint8_def)

lemma mapE_Inr:
  "(\<And>x. x \<in> set xs \<Longrightarrow> f x = Inr (g x)) \<Longrightarrow> mapE f xs = Inr (map g xs)"
  by (induction xs) simp_all

lemma read_bytes:
  assumes "a + m \<le> length file"
  shows "mapE (\<lambda>n. getUint8 rt file (numOff (a + n))) [0 ..< m]
           = Inr (map unat (take m (drop a file)))"
proof -
  have "mapE (\<lambda>n. getUint8 rt file (numOff (a + n))) [0 ..< m]
          = Inr (map (\<lambda>n. unat (file ! (a + n))) [0 ..< m])"
    using assms by (intro mapE_Inr) (simp add: getUint8_numOff)
  moreover have "map (\<lambda>n. unat (file ! (a + n))) [0 ..< m] = map unat (take m (drop a file))"
    using assms by (intro nth_equalityI) simp_all
  ultimately show ?thesis by simp
qed

lemma read_codes:
  assumes "\<forall>n < length codes. f n = Inr (codes ! n)"
  shows "mapE f [0 ..< length codes] = Inr codes"
proof -
  have "mapE f [0 ..< length codes] = Inr (map (\<lambda>n. codes ! n) [0 ..< length codes])"
    using assms by (intro mapE_Inr) simp
  then show ?thesis by (simp add: map_nth)
qed

subsection \<open>Evaluation of the worked examples\<close>

lemmas reader_eval = getUint8_def getUint16_def getUint32_def toIndex_def numOff_def off_add_def
  bindE_def Let_def readRational_def

lemmas char_eval = char_of_def bit_Suc_0_iff trim_def isWhiteSpace_def

lemmas decoder_eval = reader_eval char_eval readTags_def readEntry_def decodeValue_def
  EXIF_TAGS_def GPS_TAGS_def typeSizes_def upt_rec

lemma round4_of_int: "round4 (of_int k) = of_int k"
proof -
  have "\<lfloor>(of_int (k * 10000) :: rat) + 1 / 2\<rfloor> = k * 10000"
    by (rule floor_unique) simp_all
  then show ?thesis by (simp add: round4_def)
qed

lemma round4_numeral:
  "round4 (numeral n) = numeral n" "round4 (- numeral n) = - numeral n"
  "round4 0 = 0" "round4 1 = 1"
  using round4_of_int [of "numeral n"] round4_of_int [of "- numeral n"]
    round4_of_int [of 0] round4_of_int [of 1]
  by simp_all

lemmas extractor_eval = decoder_eval getExifData_def segment_def collectTags_def
  followPointer_def truthy_def addPointer_def mergeTags_def finishTags_def convertGps_def
  gpsGuard_def tryConvert_def roundValue_def round4_numeral decimalDegrees_def scan.simps upt_rec

subsection \<open>What the extractor returns\<close>

text \<open>
  Claim C2, as amended.  On every byte buffer \<open>getExifData\<close> ends in one of three ways: it
  raises the \<open>RangeError\<close> of a \<open>DataView\<close> read outside the buffer (it has no handler of
  its own for it; its caller catches it), it returns \<open>null\<close>, or it returns a non-empty
  field map.  On a buffer of at least two bytes that does not begin with the marker
  \<open>FF D8\<close>, and on a buffer of at least one byte whose first byte is not \<open>FF\<close>, it returns
  \<open>null\<close> without raising.
\<close>

theorem getExifData_outcomes:
  "(getExifData rt file = Some (Inl RangeError) \<or> getExifData rt file = Some (Inr None) \<or>
      (\<exists>m. m \<noteq> [] \<and> getExifData rt file = Some (Inr (Some m))))
   \<and> (2 \<le> length file \<and> (unat (file ! 0) \<noteq> 0xFF \<or> unat (file ! 1) \<noteq> 0xD8)
        \<longrightarrow> getExifData rt file = Some (Inr None))
   \<and> (1 \<le> length file \<and> unat (file ! 0) \<noteq> 0xFF \<longrightarrow> getExifData rt file = Some (Inr None))"
proof (intro conjI impI)
  from scan_result [of rt "file" 2] obtain r where
    r: "scan rt file 2 = Some r" "range_only r"
       "\<forall>m. r = Inr (Some m) \<longrightarrow>
          (\<exists>offset' T. collectTags rt file offset' = Inr (Some T) \<and> finishTags T = Some m)"
    by blast
  have scan_cases: "scan rt file 2 = Some (Inl RangeError) \<or> scan rt file 2 = Some (Inr None) \<or>
      (\<exists>m. m \<noteq> [] \<and> scan rt file 2 = Some (Inr (Some m)))"
  proof (cases r)
    case (Inl e)
    with r(2) have "e = RangeError" by (simp add: range_only_def)
    with Inl r(1) show ?thesis by simp
  next
    case (Inr v)
    show ?thesis
    proof (cases v)
      case None
      with Inr r(1) show ?thesis by simp
    next
      case (Some m)
      with Inr r(3) have "m \<noteq> []" by (auto dest: finishTags_nonempty)
      with Some Inr r(1) show ?thesis by simp
    qed
  qed
  then show "getExifData rt file = Some (Inl RangeError) \<or> getExifData rt file = Some (Inr None) \<or>
      (\<exists>m. m \<noteq> [] \<and> getExifData rt file = Some (Inr (Some m)))"
    by (simp add: getExifData_def getUint8_numOff)
next
  assume "2 \<le> length file \<and> (unat (file ! 0) \<noteq> 0xFF \<or> unat (file ! 1) \<noteq> 0xD8)"
  then show "getExifData rt file = Some (Inr None)"
    by (auto simp: getExifData_def getUint8_numOff)
next
  assume "1 \<le> length file \<and> unat (file ! 0) \<noteq> 0xFF"
  then show "getExifData rt file = Some (Inr None)"
    by (auto simp: getExifData_def getUint8_numOff)
qed

theorem getExifData_outcomes_witness:
  "2 \<le> length [0x89, 0x50 :: byte] \<and>
   unat ([0x89, 0x50 :: byte] ! 0) = 0x89 \<and>
   getExifData exampleRuntime [0x89, 0x50] = Some (Inr None)"
  using getExifData_outcomes [of exampleRuntime "[0x89, 0x50]"] by simp

text \<open>
  Claim C2 as stated fails: the extractor raises a \<open>RangeError\<close> on the empty buffer, on
  the one-byte buffer \<open>FF\<close>, and on a buffer that ends right after the signature \<open>Exif\<close>.
\<close>

theorem getExifData_raises_counterexample:
  "getExifData exampleRuntime [] = Some (Inl RangeError) \<and>
   getExifData exampleRuntime [0xFF] = Some (Inl RangeError) \<and>
   getExifData exampleRuntime [0xFF, 0xD8, 0xFF, 0xE1, 0x00, 0x08, 0x45, 0x78, 0x69, 0x66]
     = Some (Inl RangeError)"
  by (simp add: extractor_eval)

text \<open>
  Claim C10.  \<open>getExifData\<close> returns on every byte buffer, with a result or an exception:
  the \<open>while\<close> loop, defined without a termination argument, always yields a value, and an
  iteration that continues moves the offset forward by at least two bytes.  The loops of a
  directory decode are recursions over the lists \<open>[0 ..< entries]\<close>, \<open>[0 ..< components]\<close>
  and \<open>[0 ..< min (components - 1) 100]\<close>.
\<close>

theorem getExifData_terminates:
  "(\<exists>r. getExifData rt file = Some r) \<and>
   (\<forall>offset offset'. segment rt file offset = Inr (Next offset') \<longrightarrow> offset + 2 \<le> offset')"
proof (intro conjI allI impI)
  from scan_result [of rt "file" 2] obtain r where "scan rt file 2 = Some r" by blast
  then show "\<exists>r. getExifData rt file = Some r"
    by (simp add: getExifData_def split: sum.splits)
next
  fix offset offset' assume "segment rt file offset = Inr (Next offset')"
  then show "offset + 2 \<le> offset'" by (rule segment_Next)
qed

theorem getExifData_terminates_witness:
  "segment exampleRuntime [0xFF, 0xD8, 0xFF, 0xE0, 0x00, 0x02] 2 = Inr (Next 6) \<and>
   2 + 2 \<le> (6 :: nat) \<and>
   (\<exists>r. getExifData exampleRuntime [0xFF, 0xD8, 0xFF, 0xE0, 0x00, 0x02] = Some r)"
proof -
  have "segment exampleRuntime [0xFF, 0xD8, 0xFF, 0xE0, 0x00, 0x02] 2 = Inr (Next 6)"
    by (simp add: extractor_eval)
  with getExifData_terminates [of exampleRuntime "[0xFF, 0xD8, 0xFF, 0xE0, 0x00, 0x02]"]
  show ?thesis by simp
qed

subsection \<open>Directory entries\<close>

lemma readEntry_unfold:
  assumes "getUint16 rt file (entryOffsetAt dirStart i) (\<not> bigEnd) = Inr tagId"
    and "map_of tags tagId = Some tagName"
    and "getUint16 rt file (off_add (entryOffsetAt dirStart i) 2) (\<not> bigEnd) = Inr format"
    and "getUint32 rt file (off_add (entryOffsetAt dirStart i) 4) (\<not> bigEnd) = Inr components"
    and "format < length typeSizes" and "typeSizes ! format \<noteq> 0"
    and "getUint32 rt file (off_add (entryOffsetAt dirStart i) 8) (\<not> bigEnd) = Inr valuePointer"
  shows "readEntry rt file tiffStart dirStart tags bigEnd i result =
     bindE (decodeValue rt file bigEnd format components (components * typeSizes ! format)
              valuePointer (off_add (entryOffsetAt dirStart i) 8)
              (if components * typeSizes ! format > 4 then numOff (tiffStart + valuePointer)
               else off_add (entryOffsetAt dirStart i) 8))
       (\<lambda>value. case value of None \<Rightarrow> Inr result
                  | Some v \<Rightarrow> Inr (AList.update tagName v result))"
  using assms by (simp add: readEntry_def entryOffsetAt_def Let_def)

text \<open>
  Claim C4, as amended.  For a directory entry whose tag id is in the tag table and whose
  format code has a known size, and that is neither ASCII nor rational: if it does not
  consist of a single component of at most four bytes, the decoder stores the raw 4-byte
  value/offset field as the value of the tag; if it is a single component of at most four
  bytes and neither a short nor a long, the decoder stores nothing for the tag.  The
  statement is about the iteration of the entry: a later entry of the directory with the
  same tag id replaces the value.
\<close>

theorem readEntry_raw_pointer:
  assumes "getUint16 rt file (entryOffsetAt dirStart i) (\<not> bigEnd) = Inr tagId"
    and "map_of tags tagId = Some tagName"
    and "getUint16 rt file (off_add (entryOffsetAt dirStart i) 2) (\<not> bigEnd) = Inr format"
    and "getUint32 rt file (off_add (entryOffsetAt dirStart i) 4) (\<not> bigEnd) = Inr components"
    and "format < length typeSizes" and "typeSizes ! format \<noteq> 0"
    and "getUint32 rt file (off_add (entryOffsetAt dirStart i) 8) (\<not> bigEnd) = Inr valuePointer"
    and "format \<noteq> 2" and "format \<noteq> 5"
  shows "(\<not> (components = 1 \<and> components * typeSizes ! format \<le> 4) \<longrightarrow>
            readEntry rt file tiffStart dirStart tags bigEnd i result
              = Inr (AList.update tagName (Num (of_nat valuePointer)) result))
       \<and> (components = 1 \<and> components * typeSizes ! format \<le> 4 \<and> format \<noteq> 3 \<and> format \<noteq> 4 \<longrightarrow>
            readEntry rt file tiffStart dirStart tags bigEnd i result = Inr result)"
proof (intro conjI impI)
  assume c: "\<not> (components = 1 \<and> components * typeSizes ! format \<le> 4)"
  have "decodeValue rt file bigEnd format components (components * typeSizes ! format)
          valuePointer (off_add (entryOffsetAt dirStart i) 8)
          (if components * typeSizes ! format > 4 then numOff (tiffStart + valuePointer)
           else off_add (entryOffsetAt dirStart i) 8)
        = Inr (Some (Num (of_nat valuePointer)))"
    unfolding decodeValue_def using assms(8,9) c by (simp only: if_False)
  then show "readEntry rt file tiffStart dirStart tags bigEnd i result
              = Inr (AList.update tagName (Num (of_nat valuePointer)) result)"
    by (simp add: readEntry_unfold [OF assms(1-7)])
next
  assume c: "components = 1 \<and> components * typeSizes ! format \<le> 4 \<and> format \<noteq> 3 \<and> format \<noteq> 4"
  have "decodeValue rt file bigEnd format components (components * typeSizes ! format)
          valuePointer (off_add (entryOffsetAt dirStart i) 8)
          (if components * typeSizes ! format > 4 then numOff (tiffStart + valuePointer)
           else off_add (entryOffsetAt dirStart i) 8)
        = Inr None"
    unfolding decodeValue_def using assms(8,9) c by auto
  then show "readEntry rt file tiffStart dirStart tags bigEnd i result = Inr result"
    by (simp add: readEntry_unfold [OF assms(1-7)])
qed

theorem readEntry_raw_pointer_witness:
  "getUint16 exampleRuntime [0x00, 0x01, 0x90, 0x00, 0x00, 0x07, 0x00, 0x00, 0x00, 0x04, 0x30, 0x32, 0x33, 0x30]
     (entryOffsetAt (numOff 0) 0) (\<not> True) = Inr 0x9000 \<and>
   map_of EXIF_TAGS 0x9000 = Some ''ExifVersion'' \<and>
   getUint16 exampleRuntime [0x00, 0x01, 0x90, 0x00, 0x00, 0x07, 0x00, 0x00, 0x00, 0x04, 0x30, 0x32, 0x33, 0x30]
     (off_add (entryOffsetAt (numOff 0) 0) 2) (\<not> True) = Inr 7 \<and>
   getUint32 exampleRuntime [0x00, 0x01, 0x90, 0x00, 0x00, 0x07, 0x00, 0x00, 0x00, 0x04, 0x30, 0x32, 0x33, 0x30]
     (off_add (entryOffsetAt (numOff 0) 0) 4) (\<not> True) = Inr 4 \<and>
   7 < length typeSizes \<and> typeSizes ! 7 \<noteq> 0 \<and>
   getUint32 exampleRuntime [0x00, 0x01, 0x90, 0x00, 0x00, 0x07, 0x00, 0x00, 0x00, 0x04, 0x30, 0x32, 0x33, 0x30]
     (off_add (entryOffsetAt (numOff 0) 0) 8) (\<not> True) = Inr 0x30323330 \<and>
   (7 :: nat) \<noteq> 2 \<and> (7 :: nat) \<noteq> 5 \<and> \<not> ((4 :: nat) = 1 \<and> 4 * typeSizes ! 7 \<le> 4) \<and>
   readEntry exampleRuntime [0x00, 0x01, 0x90, 0x00, 0x00, 0x07, 0x00, 0x00, 0x00, 0x04, 0x30, 0x32, 0x33, 0x30]
     0 (numOff 0) EXIF_TAGS True 0 [] = Inr [(''ExifVersion'', Num 0x30323330)]"
proof -
  let ?f = "[0x00, 0x01, 0x90, 0x00, 0x00, 0x07, 0x00, 0x00, 0x00, 0x04, 0x30, 0x32, 0x33, 0x30] :: byte list"
  have h1: "getUint16 exampleRuntime ?f (entryOffsetAt (numOff 0) 0) (\<not> True) = Inr 0x9000"
    by (simp add: reader_eval entryOffsetAt_def)
  have h2: "map_of EXIF_TAGS 0x9000 = Some ''ExifVersion''"
    by (simp add: EXIF_TAGS_def)
  have h3: "getUint16 exampleRuntime ?f (off_add (entryOffsetAt (numOff 0) 0) 2) (\<not> True) = Inr 7"
    by (simp add: reader_eval entryOffsetAt_def)
  have h4: "getUint32 exampleRuntime ?f (off_add (entryOffsetAt (numOff 0) 0) 4) (\<not> True) = Inr 4"
    by (simp add: reader_eval entryOffsetAt_def)
  have h5: "7 < length typeSizes" and h6: "typeSizes ! 7 \<noteq> 0" and h6': "typeSizes ! 7 = 1"
    by (simp_all add: typeSizes_def)
  have h7: "getUint32 exampleRuntime ?f (off_add (entryOffsetAt (numOff 0) 0) 8) (\<not> True)
              = Inr 0x30323330"
    by (simp add: reader_eval entryOffsetAt_def)
  have h8: "(7 :: nat) \<noteq> 2" and h9: "(7 :: nat) \<noteq> 5" by simp_all
  from readEntry_raw_pointer [OF h1 h2 h3 h4 h5 h6 h7 h8 h9, of 0 "[]"]
  have "readEntry exampleRuntime ?f 0 (numOff 0) EXIF_TAGS True 0 []
          = Inr [(''ExifVersion'', Num 0x30323330)]"
    by (simp add: h6')
  with h1 h2 h3 h4 h5 h6 h6' h7 show ?thesis by simp
qed

text \<open>
  Claim C4 as stated fails on a directory whose only entry is the tag \<open>Make\<close> with format 1
  (byte) and one component: the entry is none of the excepted kinds, and the decoder
  returns an empty map instead of storing the raw field \<open>2A 00 00 00\<close>.
\<close>

theorem readTags_single_byte_counterexample:
  "readTags exampleRuntime
     [0x00, 0x01, 0x01, 0x0F, 0x00, 0x01, 0x00, 0x00, 0x00, 0x01, 0x2A, 0x00, 0x00, 0x00]
     0 (numOff 0) EXIF_TAGS True = Inr [] \<and>
   map_of EXIF_TAGS 0x010F = Some ''Make'' \<and> typeSizes ! 1 = 1"
  by (simp add: decoder_eval)

text \<open>
  Claim C8, as amended.  For a directory entry of ASCII format with component count \<open>c\<close>,
  the decoded value is the string of the \<open>min (c - 1) 100\<close> bytes read at the value
  address and the positions after it, as characters, with white space removed at both
  ends.  When the value address is a number \<open>a\<close> and the bytes lie inside the buffer,
  these are the bytes of the buffer from position \<open>a\<close> on.
\<close>

theorem readEntry_ascii:
  assumes "getUint16 rt file (entryOffsetAt dirStart i) (\<not> bigEnd) = Inr tagId"
    and "map_of tags tagId = Some tagName"
    and "getUint16 rt file (off_add (entryOffsetAt dirStart i) 2) (\<not> bigEnd) = Inr 2"
    and "getUint32 rt file (off_add (entryOffsetAt dirStart i) 4) (\<not> bigEnd) = Inr components"
    and "getUint32 rt file (off_add (entryOffsetAt dirStart i) 8) (\<not> bigEnd) = Inr valuePointer"
    and va: "valueAddress = (if components > 4 then numOff (tiffStart + valuePointer)
                             else off_add (entryOffsetAt dirStart i) 8)"
    and m: "m = min (components - 1) 100"
  shows "(length codes = m \<and>
          (\<forall>n < m. getUint8 rt file (off_add valueAddress n) = Inr (codes ! n)) \<longrightarrow>
            readEntry rt file tiffStart dirStart tags bigEnd i result
              = Inr (AList.update tagName (Str (trim (map char_of codes))) result))
       \<and> (valueAddress = numOff a \<and> a + m \<le> length file \<longrightarrow>
            readEntry rt file tiffStart dirStart tags bigEnd i result
              = Inr (AList.update tagName
                       (Str (trim (map (\<lambda>b. char_of (unat b)) (take m (drop a file)))))
                       result))"
proof -
  have ts: "(2::nat) < length typeSizes" "typeSizes ! 2 \<noteq> 0" "typeSizes ! 2 = 1"
    by (simp_all add: typeSizes_def)
  have va': "(if components * typeSizes ! 2 > 4 then numOff (tiffStart + valuePointer)
              else off_add (entryOffsetAt dirStart i) 8) = valueAddress"
    using va by (simp add: ts)
  have entry: "readEntry rt file tiffStart dirStart tags bigEnd i result
      = bindE (mapE (\<lambda>n. getUint8 rt file (off_add valueAddress n)) [0 ..< m])
          (\<lambda>codes. Inr (AList.update tagName (Str (trim (map char_of codes))) result))"
    unfolding readEntry_unfold [OF assms(1-4) ts(1,2) assms(5)] va'
    by (cases "mapE (\<lambda>n. getUint8 rt file (off_add valueAddress n)) [0 ..< m]")
       (simp_all add: decodeValue_def m)
  show ?thesis
  proof (intro conjI impI)
    assume c: "length codes = m \<and>
          (\<forall>n < m. getUint8 rt file (off_add valueAddress n) = Inr (codes ! n))"
    then have "mapE (\<lambda>n. getUint8 rt file (off_add valueAddress n)) [0 ..< length codes]
                 = Inr codes"
      by (intro read_codes) simp
    with c show "readEntry rt file tiffStart dirStart tags bigEnd i result
              = Inr (AList.update tagName (Str (trim (map char_of codes))) result)"
      by (simp add: entry)
  next
    assume c: "valueAddress = numOff a \<and> a + m \<le> length file"
    then have "mapE (\<lambda>n. getUint8 rt file (off_add valueAddress n)) [0 ..< m]
                 = Inr (map unat (take m (drop a file)))"
      using read_bytes [of a m "file" rt] by simp
    then show "readEntry rt file tiffStart dirStart tags bigEnd i result
              = Inr (AList.update tagName
                       (Str (trim (map (\<lambda>b. char_of (unat b)) (take m (drop a file)))))
                       result)"
      by (simp add: entry comp_def)
  qed
qed

theorem readEntry_ascii_witness:
  "getUint16 exampleRuntime [0x00, 0x01, 0x01, 0x0F, 0x00, 0x02, 0x00, 0x00, 0x00, 0x04, 0x20, 0x61, 0x62, 0x00]
     (entryOffsetAt (numOff 0) 0) (\<not> True) = Inr 0x010F \<and>
   map_of EXIF_TAGS 0x010F = Some ''Make'' \<and>
   getUint16 exampleRuntime [0x00, 0x01, 0x01, 0x0F, 0x00, 0x02, 0x00, 0x00, 0x00, 0x04, 0x20, 0x61, 0x62, 0x00]
     (off_add (entryOffsetAt (numOff 0) 0) 2) (\<not> True) = Inr 2 \<and>
   getUint32 exampleRuntime [0x00, 0x01, 0x01, 0x0F, 0x00, 0x02, 0x00, 0x00, 0x00, 0x04, 0x20, 0x61, 0x62, 0x00]
     (off_add (entryOffsetAt (numOff 0) 0) 4) (\<not> True) = Inr 4 \<and>
   getUint32 exampleRuntime [0x00, 0x01, 0x01, 0x0F, 0x00, 0x02, 0x00, 0x00, 0x00, 0x04, 0x20, 0x61, 0x62, 0x00]
     (off_add (entryOffsetAt (numOff 0) 0) 8) (\<not> True) = Inr 0x20616200 \<and>
   numOff 10 = (if (4 :: nat) > 4 then numOff (0 + 0x20616200)
                else off_add (entryOffsetAt (numOff 0) 0) 8) \<and>
   (3 :: nat) = min (4 - 1) 100 \<and>
   (10 :: nat) + 3
     \<le> length [0x00, 0x01, 0x01, 0x0F, 0x00, 0x02, 0x00, 0x00, 0x00, 0x04, 0x20, 0x61, 0x62, 0x00 :: byte] \<and>
   readEntry exampleRuntime [0x00, 0x01, 0x01, 0x0F, 0x00, 0x02, 0x00, 0x00, 0x00, 0x04, 0x20, 0x61, 0x62, 0x00]
     0 (numOff 0) EXIF_TAGS True 0 [] = Inr [(''Make'', Str ''ab'')]"
proof -
  let ?f = "[0x00, 0x01, 0x01, 0x0F, 0x00, 0x02, 0x00, 0x00, 0x00, 0x04, 0x20, 0x61, 0x62, 0x00] :: byte list"
  have h1: "getUint16 exampleRuntime ?f (entryOffsetAt (numOff 0) 0) (\<not> True) = Inr 0x010F"
    by (simp add: reader_eval entryOffsetAt_def)
  have h2: "map_of EXIF_TAGS 0x010F = Some ''Make''"
    by (simp add: EXIF_TAGS_def)
  have h3: "getUint16 exampleRuntime ?f (off_add (entryOffsetAt (numOff 0) 0) 2) (\<not> True) = Inr 2"
    by (simp add: reader_eval entryOffsetAt_def)
  have h4: "getUint32 exampleRuntime ?f (off_add (entryOffsetAt (numOff 0) 0) 4) (\<not> True) = Inr 4"
    by (simp add: reader_eval entryOffsetAt_def)
  have h5: "getUint32 exampleRuntime ?f (off_add (entryOffsetAt (numOff 0) 0) 8) (\<not> True)
              = Inr 0x20616200"
    by (simp add: reader_eval entryOffsetAt_def)
  have h6: "numOff 10 = (if (4 :: nat) > 4 then numOff (0 + 0x20616200)
                else off_add (entryOffsetAt (numOff 0) 0) 8)"
    by (simp add: entryOffsetAt_def)
  have h7: "(3 :: nat) = min (4 - 1) 100" by simp
  have h8: "(10 :: nat) + 3 \<le> length ?f" by simp
  from readEntry_ascii [OF h1 h2 h3 h4 h5 h6 h7, where a = 10 and result = "[]"] h8
  have "readEntry exampleRuntime ?f 0 (numOff 0) EXIF_TAGS True 0 [] = Inr [(''Make'', Str ''ab'')]"
    by (simp add: char_eval)
  with h1 h2 h3 h4 h5 h6 show ?thesis by simp
qed

text \<open>
  Claim C8 as stated fails on the ASCII entry with the bytes \<open>20 61 62 00\<close> and four
  components: the three characters read are a space, \<open>a\<close> and \<open>b\<close>, and the decoded value
  is \<open>ab\<close>, without the leading space.
\<close>

theorem readTags_ascii_counterexample:
  "readTags exampleRuntime
     [0x00, 0x01, 0x01, 0x0F, 0x00, 0x02, 0x00, 0x00, 0x00, 0x04, 0x20, 0x61, 0x62, 0x00]
     0 (numOff 0) EXIF_TAGS True
   = Inr [(''Make'', Str ''ab'')]"
  by (simp add: decoder_eval)

subsection \<open>Coordinate normalization\<close>











lemma nonnegFields_Nil [simp]: "nonnegFields []"
  by (simp add: nonnegFields_def)

















end
